theory Spec2Isabelle
  imports Main "HOL-Library.Sublist"
begin

section \<open>Geekbot: document indexing and synchronisation\<close>

text \<open>
  A shallow embedding of \<^verbatim>\<open>storage_utils.py\<close> and of the indexing part of
  \<^verbatim>\<open>app.py\<close>. Python strings are \<^typ>\<open>string\<close>, Python's unbounded integers
  are \<^typ>\<open>int\<close> (\<^typ>\<open>nat\<close> for counters that start at 0 and only grow), a
  metadata dictionary is a record of the keys the code reads and writes, with
  \<^typ>\<open>'a option\<close> for a key that may be absent (or hold \<^verbatim>\<open>None\<close>).
\<close>

subsection \<open>Formatting integers as Python's f-strings do\<close>

definition digit_char :: "nat \<Rightarrow> char" where
  "digit_char d = ''0123456789'' ! d"

function str_nat :: "nat \<Rightarrow> string" where
  "str_nat n = (if n < 10 then [digit_char n] else str_nat (n div 10) @ [digit_char (n mod 10)])"
  by pat_completeness auto
termination
  by (relation "measure (\<lambda>n. n)") auto

declare str_nat.simps [simp del]

definition str_int :: "int \<Rightarrow> string" where
  "str_int i = (if i < 0 then CHR ''-'' # str_nat (nat (- i)) else str_nat (nat i))"

subsection \<open>Documents and their metadata\<close>

text \<open>
  \<^verbatim>\<open>Document.metadata\<close> is a dictionary; the keys below are the ones the indexing code
  touches. \<^verbatim>\<open>page\<close> is the integer page number the PDF loader produces (other
  loaders leave it out, and the code defaults it to 0).
\<close>

record metadata =
  md_source :: "string option"
  md_page :: "int option"
  md_id :: "string option"
  md_file_name :: "string option"
  md_file_type :: "string option"

record document =
  page_content :: string
  doc_meta :: metadata

text \<open>\<^verbatim>\<open>chunk.metadata.get(METADATA_SOURCE_KEY) or ""\<close>: an absent key, \<^verbatim>\<open>None\<close>
  and the empty string all give the empty string.\<close>

definition source_or_empty :: "metadata \<Rightarrow> string" where
  "source_or_empty m = (case md_source m of None \<Rightarrow> [] | Some s \<Rightarrow> s)"

text \<open>\<^verbatim>\<open>chunk.metadata.get("page", 0)\<close>\<close>

definition page_or_zero :: "metadata \<Rightarrow> int" where
  "page_or_zero m = (case md_page m of None \<Rightarrow> 0 | Some p \<Rightarrow> p)"

text \<open>\<^verbatim>\<open>current_page_id = f"{source}:{page}"\<close>\<close>

definition page_id :: "document \<Rightarrow> string" where
  "page_id chunk =
     source_or_empty (doc_meta chunk) @ '':'' @ str_int (page_or_zero (doc_meta chunk))"

text \<open>The (source, page) key of a chunk, as the pair the page id is formatted from.\<close>

definition chunk_key :: "document \<Rightarrow> string \<times> int" where
  "chunk_key chunk = (source_or_empty (doc_meta chunk), page_or_zero (doc_meta chunk))"

definition set_id :: "document \<Rightarrow> string \<Rightarrow> document" where
  "set_id chunk cid = chunk\<lparr>doc_meta := (doc_meta chunk)\<lparr>md_id := Some cid\<rparr>\<rparr>"

subsection \<open>\<^verbatim>\<open>calculate_chunk_ids\<close>\<close>

text \<open>
  The loop of \<^verbatim>\<open>calculate_chunk_ids\<close>, with its two variables \<^verbatim>\<open>last_page_id\<close>
  (initially \<^verbatim>\<open>None\<close>) and \<^verbatim>\<open>current_chunk_index\<close> (initially 0) as arguments.
\<close>

fun assign_ids :: "string option \<Rightarrow> nat \<Rightarrow> document list \<Rightarrow> document list" where
  "assign_ids last_page_id current_chunk_index [] = []"
| "assign_ids last_page_id current_chunk_index (chunk # chunks) =
     (let current_page_id = page_id chunk;
          idx = (if Some current_page_id = last_page_id then current_chunk_index + 1 else 0);
          chunk_id = current_page_id @ '':'' @ str_nat idx
      in set_id chunk chunk_id # assign_ids (Some current_page_id) idx chunks)"

definition calculate_chunk_ids :: "document list \<Rightarrow> document list" where
  "calculate_chunk_ids chunks = assign_ids None 0 chunks"

text \<open>The identifier a chunk carries (\<^verbatim>\<open>c.metadata.get("id")\<close>).\<close>

definition chunk_id_of :: "document \<Rightarrow> string option" where
  "chunk_id_of chunk = md_id (doc_meta chunk)"

subsection \<open>Exceptions\<close>

text \<open>The exceptions that reach the code: \<^verbatim>\<open>RuntimeError\<close>, \<^verbatim>\<open>ValueError\<close> and
  \<^verbatim>\<open>OSError\<close> from the path library, \<^verbatim>\<open>KeyError\<close> from a dictionary, and a
  failure of the store backend.\<close>

datatype error = BackendError | KeyError | ValueError | OSError | RuntimeError

subsection \<open>The environment: file system, loaders and splitter\<close>

text \<open>
  What the indexing code asks of the file system and of the document loaders and the text
  splitter of its libraries. One value of \<open>env\<close> is one unchanging content of the disk:
  \<^item> \<open>resolve p\<close> is \<^verbatim>\<open>str(Path(p).expanduser().resolve())\<close>;
  \<^item> \<open>path_exists\<close>, \<open>path_is_file\<close>, \<open>path_is_dir\<close>, \<open>path_name\<close> are the
    \<^verbatim>\<open>Path\<close> methods, \<open>path_suffix p\<close> is \<^verbatim>\<open>p.suffix.lower()\<close>;
  \<^item> \<open>walk_files p\<close> lists every \<^verbatim>\<open>Path(root) / fname\<close> that \<^verbatim>\<open>os.walk(p)\<close> yields;
  \<^item> \<open>loader_load sfx p\<close> is \<^verbatim>\<open>SUPPORTED_LOADERS[sfx](p).load()\<close>;
  \<^item> \<open>splitter docs\<close> is \<^verbatim>\<open>TEXT_SPLITTER.split_documents(docs)\<close>;
  \<^item> \<open>resolve_error p\<close> is the exception that \<^verbatim>\<open>Path(p).expanduser().resolve()\<close>
    raises on the text \<open>p\<close> a user enters, if it raises (an unknown user after
    \<^verbatim>\<open>~\<close>, for one), and \<open>exists_error p\<close> the exception that
    \<^verbatim>\<open>Path(p).exists()\<close> raises, if it raises (an over-long name, for one). Where
    they give \<open>None\<close> the calls return \<open>resolve p\<close> and \<open>path_exists p\<close>.
  The functions of \<^verbatim>\<open>storage_utils.py\<close> normalise paths that were resolved before
  and sources that were stored normalised. For the loaders, the splitter and the walk the
  model covers the runs in which the library calls return.
\<close>

record env =
  resolve :: "string \<Rightarrow> string"
  path_exists :: "string \<Rightarrow> bool"
  path_is_file :: "string \<Rightarrow> bool"
  path_is_dir :: "string \<Rightarrow> bool"
  path_name :: "string \<Rightarrow> string"
  path_suffix :: "string \<Rightarrow> string"
  walk_files :: "string \<Rightarrow> string list"
  loader_load :: "string \<Rightarrow> string \<Rightarrow> document list"
  splitter :: "document list \<Rightarrow> document list"
  resolve_error :: "string \<Rightarrow> error option"
  exists_error :: "string \<Rightarrow> error option"

text \<open>\<^verbatim>\<open>normalize_source_path\<close>: \<^verbatim>\<open>None\<close> gives the empty string.\<close>

definition normalize_source_path :: "env \<Rightarrow> string option \<Rightarrow> string" where
  "normalize_source_path e p = (case p of None \<Rightarrow> [] | Some s \<Rightarrow> resolve e s)"

text \<open>\<^verbatim>\<open>str.startswith\<close>\<close>

definition startswith :: "string \<Rightarrow> string \<Rightarrow> bool" where
  "startswith s p = prefix p s"

text \<open>\<^verbatim>\<open>split_documents\<close> ignores its size arguments and uses the shared splitter.\<close>

definition split_documents :: "env \<Rightarrow> document list \<Rightarrow> document list" where
  "split_documents e documents = splitter e documents"

subsection \<open>The vector store\<close>

text \<open>
  The store is the sequence of indexed records, each an identifier with the chunk it names;
  \<open>None\<close> is a store that was never initialised. The functions of this section stand for
  the backend object \<^verbatim>\<open>db\<close> the code calls. The file lock the code takes around its
  calls serialises writers; the model is the run of one caller at a time.
\<close>

type_synonym stored = "string \<times> document"

type_synonym store = "stored list option"

record get_result =
  gr_ids :: "string list option"
  gr_metadatas :: "metadata list option"

definition store_records :: "store \<Rightarrow> stored list" where
  "store_records db = (case db of None \<Rightarrow> [] | Some rs \<Rightarrow> rs)"

text \<open>
  Modelled from the spec: \<^verbatim>\<open>db.get\<close> of the vector store library, which is not part
  of the repository. The adapter contract makes it a full scan of the identifiers and the
  metadata; on a store that was never initialised the call fails.
\<close>

definition db_get :: "store \<Rightarrow> error + get_result" where
  "db_get db = (case db of
      None \<Rightarrow> Inl BackendError
    | Some rs \<Rightarrow> Inr \<lparr>gr_ids = Some (map fst rs), gr_metadatas = Some (map (doc_meta \<circ> snd) rs)\<rparr>)"

text \<open>
  Modelled from the spec: \<^verbatim>\<open>db.add_documents\<close> of the vector store library. The
  adapter contract makes it append the chunks under the given identifiers, and safe on a
  store not seen before, which it creates.
\<close>

definition db_add_documents :: "document list \<Rightarrow> string list \<Rightarrow> store \<Rightarrow> store" where
  "db_add_documents batch_chunks batch_ids db = Some (store_records db @ zip batch_ids batch_chunks)"

text \<open>
  Modelled from the spec: \<^verbatim>\<open>db.delete\<close> of the vector store library. The adapter
  contract makes it remove the records with the given identifiers and ignore an identifier
  that is absent. \<^verbatim>\<open>db.persist\<close> changes nothing that the model observes.
\<close>

definition db_delete :: "string list \<Rightarrow> store \<Rightarrow> store" where
  "db_delete ids db = map_option (filter (\<lambda>r. fst r \<notin> set ids)) db"

subsection \<open>\<^verbatim>\<open>add_to_chroma\<close>\<close>

text \<open>The first loop: a chunk with a non-empty source gets it normalised.\<close>

definition normalize_chunk_source :: "env \<Rightarrow> document \<Rightarrow> document" where
  "normalize_chunk_source e c =
     (case md_source (doc_meta c) of
        None \<Rightarrow> c
      | Some src \<Rightarrow>
          if src = [] then c
          else c\<lparr>doc_meta := (doc_meta c)\<lparr>md_source := Some (normalize_source_path e (Some src))\<rparr>\<rparr>)"

text \<open>
  The batching loop \<^verbatim>\<open>for i in range(0, len(new_chunks), batch_size)\<close> for a positive
  step: the arguments of the successive \<^verbatim>\<open>db.add_documents\<close> calls, from index \<open>i\<close> on.
  For a step that is not positive the range is empty (0 is refused before the loop, see
  \<open>add_to_chroma\<close>).
\<close>

function batch_calls ::
  "nat \<Rightarrow> nat \<Rightarrow> document list \<Rightarrow> string list \<Rightarrow> (document list \<times> string list) list" where
  "batch_calls i batch_size new_chunks new_ids =
     (if batch_size = 0 \<or> length new_chunks \<le> i then []
      else (take batch_size (drop i new_chunks), take batch_size (drop i new_ids)) #
           batch_calls (i + batch_size) batch_size new_chunks new_ids)"
  by pat_completeness auto
termination
  by (relation "measure (\<lambda>(i, batch_size, new_chunks, new_ids). length new_chunks - i)") auto

declare batch_calls.simps [simp del]

text \<open>\<^verbatim>\<open>existing_ids\<close>: the identifiers \<^verbatim>\<open>db.get\<close> reports, none when the call
  raises (the \<^verbatim>\<open>except\<close> branch) or reports no \<^verbatim>\<open>ids\<close>.\<close>

definition existing_ids_of :: "store \<Rightarrow> string list" where
  "existing_ids_of db =
     (case db_get db of
        Inl err \<Rightarrow> []
      | Inr existing \<Rightarrow> (case gr_ids existing of None \<Rightarrow> [] | Some ids \<Rightarrow> ids))"

text \<open>\<^verbatim>\<open>c.metadata.get("id") not in existing_ids\<close>\<close>

definition is_new_chunk :: "string list \<Rightarrow> document \<Rightarrow> bool" where
  "is_new_chunk existing_ids c =
     (case chunk_id_of c of None \<Rightarrow> True | Some i \<Rightarrow> i \<notin> set existing_ids)"

text \<open>
  \<^verbatim>\<open>add_to_chroma\<close> returns the count together with the store it leaves. Reading
  \<^verbatim>\<open>c.metadata["id"]\<close> raises \<^verbatim>\<open>KeyError\<close> on a chunk without identifier, and
  \<^verbatim>\<open>range\<close> raises \<^verbatim>\<open>ValueError\<close> for the step 0. The directory of the store is
  created by the caller's \<^verbatim>\<open>mkdir\<close> as well and is part of the application state below.
\<close>

definition add_to_chroma :: "env \<Rightarrow> document list \<Rightarrow> int \<Rightarrow> store \<Rightarrow> error + (nat \<times> store)" where
  "add_to_chroma e chunks batch_size db =
     (if chunks = [] then Inr (0, db)
      else
        let chunks_with_ids = calculate_chunk_ids (map (normalize_chunk_source e) chunks);
            existing_ids = existing_ids_of db;
            new_chunks = filter (is_new_chunk existing_ids) chunks_with_ids
        in if new_chunks = [] then Inr (0, db)
           else
             (case those (map chunk_id_of new_chunks) of
                None \<Rightarrow> Inl KeyError
              | Some new_ids \<Rightarrow>
                  if batch_size = 0 then Inl ValueError
                  else Inr (length new_chunks,
                            fold (\<lambda>(batch_chunks, batch_ids). db_add_documents batch_chunks batch_ids)
                              (batch_calls 0 (nat batch_size) new_chunks new_ids) db)))"

subsection \<open>\<^verbatim>\<open>delete_from_chroma_by_source\<close>\<close>

text \<open>The loop over \<^verbatim>\<open>zip(ids, metadatas)\<close> that collects \<^verbatim>\<open>ids_to_delete\<close>.\<close>

fun collect_ids_to_delete :: "env \<Rightarrow> bool \<Rightarrow> string \<Rightarrow> (string \<times> metadata) list \<Rightarrow> string list" where
  "collect_ids_to_delete e is_dir normalized [] = []"
| "collect_ids_to_delete e is_dir normalized ((doc_id, meta) # rest) =
     (let src = source_or_empty meta
      in if src = [] then collect_ids_to_delete e is_dir normalized rest
         else
           let src_norm = normalize_source_path e (Some src)
           in if is_dir then
                (if startswith src_norm normalized
                 then doc_id # collect_ids_to_delete e is_dir normalized rest
                 else collect_ids_to_delete e is_dir normalized rest)
              else
                (if src_norm = normalized
                 then doc_id # collect_ids_to_delete e is_dir normalized rest
                 else collect_ids_to_delete e is_dir normalized rest))"

text \<open>
  \<^verbatim>\<open>delete_from_chroma_by_source\<close> returns the count together with the store it leaves.
  Every exception inside the \<^verbatim>\<open>try\<close> block gives 0; in the model only \<^verbatim>\<open>db.get\<close>
  can raise.
\<close>

definition delete_from_chroma_by_source :: "env \<Rightarrow> store \<Rightarrow> string \<Rightarrow> nat \<times> store" where
  "delete_from_chroma_by_source e db source_path =
     (let normalized = normalize_source_path e (Some source_path)
      in case db_get db of
           Inl err \<Rightarrow> (0, db)
         | Inr all_docs \<Rightarrow>
             (case gr_ids all_docs of
                None \<Rightarrow> (0, db)
              | Some ids \<Rightarrow>
                  let is_dir = path_is_dir e normalized;
                      metadatas = (case gr_metadatas all_docs of None \<Rightarrow> [] | Some ms \<Rightarrow> ms);
                      ids_to_delete = collect_ids_to_delete e is_dir normalized (zip ids metadatas)
                  in if ids_to_delete = [] then (0, db)
                     else (length ids_to_delete, db_delete ids_to_delete db)))"

subsection \<open>\<^verbatim>\<open>list_sources_in_chroma\<close>\<close>

text \<open>The loop that fills the dictionary \<^verbatim>\<open>sources\<close>, and the function around it with
  its \<^verbatim>\<open>except\<close> branch.\<close>

fun count_sources ::
  "env \<Rightarrow> (string \<rightharpoonup> nat) \<Rightarrow> (string \<times> metadata) list \<Rightarrow> (string \<rightharpoonup> nat)" where
  "count_sources e sources [] = sources"
| "count_sources e sources ((doc_id, meta) # rest) =
     (case md_source meta of
        None \<Rightarrow> count_sources e sources rest
      | Some src \<Rightarrow>
          if src = [] then count_sources e sources rest
          else
            let n = normalize_source_path e (Some src)
            in count_sources e
                 (sources(n \<mapsto> (case sources n of None \<Rightarrow> 0 | Some k \<Rightarrow> k) + 1)) rest)"

definition list_sources_in_chroma :: "env \<Rightarrow> store \<Rightarrow> (string \<rightharpoonup> nat)" where
  "list_sources_in_chroma e db =
     (case db_get db of
        Inl err \<Rightarrow> Map.empty
      | Inr data \<Rightarrow>
          count_sources e Map.empty
            (zip (case gr_ids data of None \<Rightarrow> [] | Some ids \<Rightarrow> ids)
                 (case gr_metadatas data of None \<Rightarrow> [] | Some ms \<Rightarrow> ms)))"

subsection \<open>\<^verbatim>\<open>load_docs_for_path\<close>\<close>

text \<open>The keys of \<^verbatim>\<open>SUPPORTED_LOADERS\<close>.\<close>

definition supported_suffixes :: "string list" where
  "supported_suffixes =
     [''.py'', ''.pdf'', ''.txt'', ''.csv'', ''.docx'', ''.xlsx'', ''.md'', ''.pptx'',
      ''.html'', ''.ipynb'', ''.json'']"

text \<open>The branch for a regular file: load it and stamp the metadata of every document.\<close>

definition load_file :: "env \<Rightarrow> string \<Rightarrow> document list" where
  "load_file e path =
     (let sfx = path_suffix e path
      in if sfx \<notin> set supported_suffixes then []
         else
           let file_docs = loader_load e sfx path;
               normalized = normalize_source_path e (Some path)
           in map (\<lambda>d. d\<lparr>doc_meta := (doc_meta d)
                     \<lparr>md_file_name := Some (path_name e path),
                      md_file_type := Some sfx,
                      md_source := Some normalized,
                      md_page := Some (page_or_zero (doc_meta d))\<rparr>\<rparr>) file_docs)"

text \<open>
  Otherwise the path is walked and the function calls itself on every file name found. Such
  a name is no directory, so the inner call either loads it as a regular file or walks
  nothing and returns the empty list.
\<close>

definition load_docs_for_path :: "env \<Rightarrow> string \<Rightarrow> document list" where
  "load_docs_for_path e path =
     (if path_is_file e path then load_file e path
      else concat (map (\<lambda>f. if path_is_file e f then load_file e f else []) (walk_files e path)))"

subsection \<open>The application state and \<^verbatim>\<open>index_path\<close>\<close>

text \<open>
  The store directory \<^verbatim>\<open>CHROMA_PATH\<close>: whether it exists, whether it holds the marker
  file \<^verbatim>\<open>.reset_required\<close>, and the index persisted in it.
\<close>

record app_state =
  st_db :: store
  dir_exists :: bool
  reset_marker :: bool

text \<open>\<^verbatim>\<open>CHROMA_PATH.mkdir(parents=True, exist_ok=True)\<close>\<close>

definition mkdir_chroma :: "app_state \<Rightarrow> app_state" where
  "mkdir_chroma st = st\<lparr>dir_exists := True\<rparr>"

text \<open>
  \<^verbatim>\<open>index_path\<close> returns its pair of counts together with the state it leaves;
  \<^verbatim>\<open>add_to_chroma\<close> is called with its default batch size 2000. Nothing in the
  function catches an exception: one raised while the path is resolved or tested for
  existence leaves the function, as does one from \<^verbatim>\<open>add_to_chroma\<close>.
\<close>

definition index_path :: "env \<Rightarrow> string \<Rightarrow> app_state \<Rightarrow> error + ((nat \<times> nat) \<times> app_state)" where
  "index_path e path st =
     (case resolve_error e path of
        Some err \<Rightarrow> Inl err
      | None \<Rightarrow>
          let path_obj = resolve e path
          in case exists_error e path_obj of
               Some err \<Rightarrow> Inl err
             | None \<Rightarrow>
                 if \<not> path_exists e path_obj then Inr ((0, 0), st)
                 else
                   let st1 = mkdir_chroma st;
                       (removed, db1) = delete_from_chroma_by_source e (st_db st1) path_obj;
                       docs = load_docs_for_path e path_obj
                   in if docs = [] then Inr ((0, 0), st1\<lparr>st_db := db1\<rparr>)
                      else
                        let chunks = split_documents e docs
                        in case add_to_chroma e chunks 2000 db1 of
                             Inl err \<Rightarrow> Inl err
                           | Inr (added, db2) \<Rightarrow>
                               Inr ((length docs, added), st1\<lparr>st_db := db2\<rparr>))"

text \<open>The total number of records in the store.\<close>

definition record_count :: "app_state \<Rightarrow> nat" where
  "record_count st = length (store_records (st_db st))"

subsection \<open>\<^verbatim>\<open>clear_chroma\<close> and \<^verbatim>\<open>auto_reset_chroma\<close>\<close>

text \<open>
  What \<^verbatim>\<open>shutil.rmtree(CHROMA_PATH)\<close> does is decided outside the program: it removes
  the directory, or raises \<^verbatim>\<open>PermissionError\<close> because a file in it is still held, or
  raises another \<^verbatim>\<open>OSError\<close>. A removal that fails leaves the directory in place.
\<close>

datatype rmtree_outcome = Removed | PermissionDenied | OtherFailure

text \<open>The marker file lies inside the directory: a removal that succeeds takes it along
  with the index.\<close>

definition removed_state :: "app_state" where
  "removed_state = \<lparr>st_db = None, dir_exists = False, reset_marker = False\<rparr>"

text \<open>
  \<^verbatim>\<open>clear_chroma\<close>: the first \<^verbatim>\<open>try\<close> block deletes every record through the
  backend and passes over any exception; the second removes the directory and catches
  \<^verbatim>\<open>PermissionError\<close> only, writing the marker; then the directory is created again.
\<close>

definition clear_chroma :: "rmtree_outcome \<Rightarrow> app_state \<Rightarrow> error + app_state" where
  "clear_chroma rm st =
     (let db1 = (case db_get (st_db st) of
                   Inl err \<Rightarrow> st_db st
                 | Inr got \<Rightarrow>
                     (case gr_ids got of
                        None \<Rightarrow> st_db st
                      | Some ids \<Rightarrow> if ids \<noteq> [] then db_delete ids (st_db st) else st_db st));
          st1 = st\<lparr>st_db := db1\<rparr>
      in if dir_exists st1 then
           (case rm of
              Removed \<Rightarrow> Inr (mkdir_chroma removed_state)
            | PermissionDenied \<Rightarrow> Inr (mkdir_chroma (st1\<lparr>reset_marker := True\<rparr>))
            | OtherFailure \<Rightarrow> Inl OSError)
         else Inr (mkdir_chroma st1))"

text \<open>
  \<^verbatim>\<open>auto_reset_chroma\<close> removes with \<^verbatim>\<open>ignore_errors=True\<close>, so a failing removal
  is passed over; the marker is unlinked in the \<^verbatim>\<open>finally\<close> clause either way.
\<close>

definition auto_reset_chroma :: "rmtree_outcome \<Rightarrow> app_state \<Rightarrow> app_state" where
  "auto_reset_chroma rm st =
     (if reset_marker st then
        let st1 = (case rm of Removed \<Rightarrow> removed_state | PermissionDenied \<Rightarrow> st | OtherFailure \<Rightarrow> st);
            st2 = st1\<lparr>reset_marker := False\<rparr>
        in mkdir_chroma st2
      else st)"

text \<open>
  One run of the application script: the module-level call \<^verbatim>\<open>auto_reset_chroma()\<close>
  comes first, then the sidebar handlers run the operations the user asks for
  (\<^verbatim>\<open>index_path\<close> for an upload or a folder, \<^verbatim>\<open>list_sources_in_chroma\<close>,
  \<^verbatim>\<open>clear_chroma\<close>). An operation that raises ends the run.
\<close>

datatype operation = IndexPath string | ShowSources | ClearIndexedData rmtree_outcome

fun run_operations :: "env \<Rightarrow> operation list \<Rightarrow> app_state \<Rightarrow> error + app_state" where
  "run_operations e [] st = Inr st"
| "run_operations e (IndexPath path # ops) st =
     (case index_path e path st of
        Inl err \<Rightarrow> Inl err
      | Inr (counts, st') \<Rightarrow> run_operations e ops st')"
| "run_operations e (ShowSources # ops) st = run_operations e ops st"
| "run_operations e (ClearIndexedData rm # ops) st =
     (case clear_chroma rm st of
        Inl err \<Rightarrow> Inl err
      | Inr st' \<Rightarrow> run_operations e ops st')"

definition app_run :: "env \<Rightarrow> rmtree_outcome \<Rightarrow> operation list \<Rightarrow> app_state \<Rightarrow> error + app_state" where
  "app_run e startup_rm ops st = run_operations e ops (auto_reset_chroma startup_rm st)"

subsection \<open>Notions used to state the properties\<close>

text \<open>The condition under which the deletion loop appends a record's identifier.\<close>

definition source_matches :: "env \<Rightarrow> bool \<Rightarrow> string \<Rightarrow> metadata \<Rightarrow> bool" where
  "source_matches e is_dir normalized meta =
     (source_or_empty meta \<noteq> [] \<and>
      (if is_dir then startswith (normalize_source_path e (Some (source_or_empty meta))) normalized
       else normalize_source_path e (Some (source_or_empty meta)) = normalized))"

definition record_matches :: "env \<Rightarrow> string \<Rightarrow> stored \<Rightarrow> bool" where
  "record_matches e source_path r =
     source_matches e (path_is_dir e (normalize_source_path e (Some source_path)))
       (normalize_source_path e (Some source_path)) (doc_meta (snd r))"

text \<open>The condition under which the listing loop counts a record under the key \<open>k\<close>.\<close>

definition carries_source :: "env \<Rightarrow> string \<Rightarrow> metadata \<Rightarrow> bool" where
  "carries_source e k meta =
     (source_or_empty meta \<noteq> [] \<and> normalize_source_path e (Some (source_or_empty meta)) = k)"

text \<open>The identifier of a chunk as a string, the candidates of one \<^verbatim>\<open>add_to_chroma\<close>
  call (sources normalised, identifiers assigned) and the identifiers held by a store.\<close>

definition chunk_ident :: "document \<Rightarrow> string" where
  "chunk_ident c = (case chunk_id_of c of None \<Rightarrow> [] | Some i \<Rightarrow> i)"

definition candidate_chunks :: "env \<Rightarrow> document list \<Rightarrow> document list" where
  "candidate_chunks e chunks = calculate_chunk_ids (map (normalize_chunk_source e) chunks)"

definition store_ids :: "store \<Rightarrow> string list" where
  "store_ids db = map fst (store_records db)"

text \<open>
  The record a chunk is stored as; the records left when everything sharing an identifier
  with a matching record is deleted; the candidates whose identifier a record list lacks;
  and the candidates \<^verbatim>\<open>index_path\<close> hands to \<^verbatim>\<open>add_to_chroma\<close> (none when no
  document was loaded).
\<close>

definition tag :: "document \<Rightarrow> stored" where
  "tag c = (chunk_ident c, c)"

definition purge :: "(stored \<Rightarrow> bool) \<Rightarrow> stored list \<Rightarrow> stored list" where
  "purge M rs = filter (\<lambda>r. fst r \<notin> fst ` set (filter M rs)) rs"

definition fresh :: "stored list \<Rightarrow> document list \<Rightarrow> document list" where
  "fresh A C = filter (\<lambda>c. chunk_ident c \<notin> fst ` set A) C"

definition eff_chunks :: "env \<Rightarrow> string \<Rightarrow> document list" where
  "eff_chunks e path_obj =
     (let docs = load_docs_for_path e path_obj
      in if docs = [] then [] else candidate_chunks e (split_documents e docs))"

text \<open>The state right after the store directory was removed and created again.\<close>

definition fresh_state :: app_state where
  "fresh_state = \<lparr>st_db = None, dir_exists = True, reset_marker = False\<rparr>"

subsection \<open>A small example disk\<close>

text \<open>
  A directory \<^verbatim>\<open>/data/report\<close> with one text file, and a text file
  \<^verbatim>\<open>/data/report2.txt\<close> beside it. Paths are already canonical, every file loads as
  one document and the splitter leaves it whole. The system has no user
  \<^verbatim>\<open>nosuchuser\<close>, so expanding \<^verbatim>\<open>~nosuchuser/x\<close> raises \<^verbatim>\<open>RuntimeError\<close>, and
  the existence test of a name of 300 characters raises \<^verbatim>\<open>OSError\<close>.
\<close>

definition long_name :: string where
  "long_name = ''/data/'' @ replicate 300 (CHR ''a'')"

definition example_chunk :: "string \<Rightarrow> int \<Rightarrow> string \<Rightarrow> document" where
  "example_chunk src pg txt =
     \<lparr>page_content = txt,
      doc_meta = \<lparr>md_source = Some src, md_page = Some pg, md_id = None,
                  md_file_name = None, md_file_type = None\<rparr>\<rparr>"

definition example_env :: env where
  "example_env =
     \<lparr>resolve = (\<lambda>p. p),
      path_exists = (\<lambda>p. p \<in> set [''/data'', ''/data/report'', ''/data/report/a.txt'', ''/data/report2.txt'']),
      path_is_file = (\<lambda>p. p \<in> set [''/data/report/a.txt'', ''/data/report2.txt'']),
      path_is_dir = (\<lambda>p. p \<in> set [''/data'', ''/data/report'']),
      path_name = (\<lambda>p. p),
      path_suffix = (\<lambda>p. ''.txt''),
      walk_files = (\<lambda>p. if p = ''/data/report'' then [''/data/report/a.txt''] else []),
      loader_load = (\<lambda>sfx p. [\<lparr>page_content = ''hello'',
                        doc_meta = \<lparr>md_source = None, md_page = None, md_id = None,
                                    md_file_name = None, md_file_type = None\<rparr>\<rparr>]),
      splitter = (\<lambda>docs. docs),
      resolve_error = (\<lambda>p. if p = ''~nosuchuser/x'' then Some RuntimeError else None),
      exists_error = (\<lambda>p. if p = long_name then Some OSError else None)\<rparr>"

text \<open>The record \<^verbatim>\<open>index_path\<close> stores for the single chunk of the file \<open>src\<close>.\<close>

definition example_record :: "string \<Rightarrow> stored" where
  "example_record src =
     (src @ '':0:0'',
      \<lparr>page_content = ''hello'',
       doc_meta = \<lparr>md_source = Some src, md_page = Some 0, md_id = Some (src @ '':0:0''),
                   md_file_name = Some src, md_file_type = Some ''.txt''\<rparr>\<rparr>)"

definition example_state :: "store \<Rightarrow> app_state" where
  "example_state s = \<lparr>st_db = s, dir_exists = True, reset_marker = False\<rparr>"

text \<open>A record without a source, as a caller other than \<^verbatim>\<open>index_path\<close> may add it.\<close>

definition sourceless_record :: stored where
  "sourceless_record =
     (''note:0:0'',
      \<lparr>page_content = ''note'',
       doc_meta = \<lparr>md_source = None, md_page = Some 0, md_id = Some ''note:0:0'',
                   md_file_name = None, md_file_type = None\<rparr>\<rparr>)"

section \<open>Properties\<close>

subsection \<open>Decimal formatting\<close>

lemma lt_10_cases:
  "(d::nat) < 10 \<Longrightarrow> d = 0 \<or> d = 1 \<or> d = 2 \<or> d = 3 \<or> d = 4 \<or> d = 5 \<or> d = 6 \<or> d = 7 \<or> d = 8 \<or> d = 9"
  by arith

lemma digit_char_inj: "d < 10 \<Longrightarrow> e < 10 \<Longrightarrow> digit_char d = digit_char e \<Longrightarrow> d = e"
  using lt_10_cases [of d] lt_10_cases [of e] by (auto simp: digit_char_def)

lemma digit_char_not_colon: "d < 10 \<Longrightarrow> digit_char d \<noteq> CHR '':''"
  using lt_10_cases [of d] by (auto simp: digit_char_def)

lemma digit_char_not_minus: "d < 10 \<Longrightarrow> digit_char d \<noteq> CHR ''-''"
  using lt_10_cases [of d] by (auto simp: digit_char_def)

lemma str_nat_chars: "c \<in> set (str_nat n) \<Longrightarrow> \<exists>d<10. c = digit_char d"
proof (induction n rule: str_nat.induct)
  case (1 n)
  show ?case
  proof (cases "n < 10")
    case True
    with "1.prems" show ?thesis by (auto simp: str_nat.simps [of n])
  next
    case False
    with "1.prems" have "c \<in> set (str_nat (n div 10)) \<or> c = digit_char (n mod 10)"
      by (auto simp: str_nat.simps [of n])
    then show ?thesis
    proof
      assume "c \<in> set (str_nat (n div 10))"
      with False "1.IH" show ?thesis by simp
    next
      assume "c = digit_char (n mod 10)"
      moreover have "n mod 10 < 10" by simp
      ultimately show ?thesis by blast
    qed
  qed
qed

lemma colon_notin_str_nat: "CHR '':'' \<notin> set (str_nat n)"
  using str_nat_chars digit_char_not_colon by metis

lemma minus_notin_str_nat: "CHR ''-'' \<notin> set (str_nat n)"
  using str_nat_chars digit_char_not_minus by metis

lemma str_nat_nonempty: "str_nat n \<noteq> []"
  by (subst str_nat.simps) simp

lemma str_nat_inj: "str_nat m = str_nat n \<Longrightarrow> m = n"
proof (induction m arbitrary: n rule: str_nat.induct)
  case (1 m)
  show ?case
  proof (cases "m < 10")
    case m: True
    show ?thesis
    proof (cases "n < 10")
      case True
      with m "1.prems" show ?thesis
        by (simp add: str_nat.simps [of m] str_nat.simps [of n] digit_char_inj)
    next
      case False
      with m "1.prems" show ?thesis
        using str_nat_nonempty [of "n div 10"]
        by (auto simp add: str_nat.simps [of m] str_nat.simps [of n])
    qed
  next
    case m: False
    show ?thesis
    proof (cases "n < 10")
      case True
      with m "1.prems" show ?thesis
        using str_nat_nonempty [of "m div 10"]
        by (auto simp add: str_nat.simps [of m] str_nat.simps [of n])
    next
      case False
      with m "1.prems" have a: "str_nat (m div 10) = str_nat (n div 10)"
        and b: "digit_char (m mod 10) = digit_char (n mod 10)"
        by (simp_all add: str_nat.simps [of m] str_nat.simps [of n])
      from a m "1.IH" have "m div 10 = n div 10" by simp
      moreover from b have "m mod 10 = n mod 10" by (simp add: digit_char_inj)
      ultimately show ?thesis by (metis div_mult_mod_eq)
    qed
  qed
qed

lemma colon_notin_str_int: "CHR '':'' \<notin> set (str_int i)"
  by (simp add: str_int_def colon_notin_str_nat)

lemma str_int_inj: "str_int i = str_int j \<Longrightarrow> i = j"
proof -
  assume h: "str_int i = str_int j"
  have hd_nat: "\<And>n. hd (str_nat n) \<noteq> CHR ''-''"
    using minus_notin_str_nat str_nat_nonempty by (metis hd_in_set)
  show ?thesis
  proof (cases "i < 0")
    case i: True
    show ?thesis
    proof (cases "j < 0")
      case True
      with i h have "nat (- i) = nat (- j)" by (simp add: str_int_def str_nat_inj)
      with i True show ?thesis by simp
    next
      case False
      with i h have "CHR ''-'' # str_nat (nat (- i)) = str_nat (nat j)" by (simp add: str_int_def)
      then have "hd (str_nat (nat j)) = CHR ''-''" by (metis list.sel(1))
      with hd_nat show ?thesis by simp
    qed
  next
    case i: False
    show ?thesis
    proof (cases "j < 0")
      case True
      with i h have "str_nat (nat i) = CHR ''-'' # str_nat (nat (- j))" by (simp add: str_int_def)
      then have "hd (str_nat (nat i)) = CHR ''-''" by (metis list.sel(1))
      with hd_nat show ?thesis by simp
    next
      case False
      with i h have "nat i = nat j" by (simp add: str_int_def str_nat_inj)
      with i False show ?thesis by simp
    qed
  qed
qed

lemma split_at_first:
  "xs @ c # ys = xs' @ c # ys' \<Longrightarrow> c \<notin> set xs \<Longrightarrow> c \<notin> set xs' \<Longrightarrow> xs = xs' \<and> ys = ys'"
proof (induction xs arbitrary: xs')
  case Nil
  then show ?case by (cases xs') auto
next
  case (Cons x xs)
  then show ?case by (cases xs') auto
qed

lemma split_at_last_colon:
  assumes "a @ CHR '':'' # s = b @ CHR '':'' # t"
    and "CHR '':'' \<notin> set s" and "CHR '':'' \<notin> set t"
  shows "a = b \<and> s = t"
proof -
  from assms(1) have "rev (a @ CHR '':'' # s) = rev (b @ CHR '':'' # t)" by simp
  then have "rev s @ CHR '':'' # rev a = rev t @ CHR '':'' # rev b" by simp
  moreover have "CHR '':'' \<notin> set (rev s)" "CHR '':'' \<notin> set (rev t)" using assms by simp_all
  ultimately have "rev s = rev t \<and> rev a = rev b"
    by (rule split_at_first)
  then show ?thesis by simp
qed

lemma str_small: "str_int 0 = ''0''" "str_nat 0 = ''0''" "str_nat (Suc 0) = ''1''"
  "str_int 1 = ''1''" "str_int 2 = ''2''"
  by (simp_all add: str_int_def str_nat.simps digit_char_def)

subsection \<open>Chunk identifiers\<close>

lemma chunk_id_eq:
  assumes "k1 @ '':'' @ str_nat n1 = k2 @ '':'' @ str_nat n2"
  shows "k1 = k2 \<and> n1 = n2"
proof -
  from assms have "k1 @ CHR '':'' # str_nat n1 = k2 @ CHR '':'' # str_nat n2" by simp
  from split_at_last_colon [OF this colon_notin_str_nat colon_notin_str_nat]
  show ?thesis using str_nat_inj by blast
qed

lemma chunk_id_of_set_id [simp]: "chunk_id_of (set_id c s) = Some s"
  by (simp add: chunk_id_of_def set_id_def)

lemma assign_ids_form:
  "d \<in> set (assign_ids lp idx cs) \<Longrightarrow>
   \<exists>c \<in> set cs. \<exists>n. chunk_id_of d = Some (page_id c @ '':'' @ str_nat n)"
proof (induction cs arbitrary: lp idx)
  case Nil
  then show ?case by simp
next
  case (Cons c cs)
  then show ?case by (fastforce simp: Let_def)
qed

lemma assign_ids_avoid:
  assumes "a \<notin> page_id ` set cs"
  shows "Some (a @ '':'' @ str_nat n) \<notin> chunk_id_of ` set (assign_ids lp idx cs)"
proof
  assume "Some (a @ '':'' @ str_nat n) \<in> chunk_id_of ` set (assign_ids lp idx cs)"
  then obtain d where d: "d \<in> set (assign_ids lp idx cs)"
    and e: "chunk_id_of d = Some (a @ '':'' @ str_nat n)" by force
  from assign_ids_form [OF d] obtain c m where c: "c \<in> set cs"
    and "chunk_id_of d = Some (page_id c @ '':'' @ str_nat m)" by blast
  with e have "a @ '':'' @ str_nat n = page_id c @ '':'' @ str_nat m" by simp
  then have "a = page_id c" using chunk_id_eq by blast
  with c assms show False by blast
qed

lemma assign_ids_distinct_gen:
  "distinct (remdups_adj (case lp of None \<Rightarrow> map page_id cs | Some a \<Rightarrow> a # map page_id cs)) \<Longrightarrow>
   distinct (map chunk_id_of (assign_ids lp idx cs)) \<and>
   (\<forall>a n. lp = Some a \<longrightarrow> n \<le> idx \<longrightarrow>
      Some (a @ '':'' @ str_nat n) \<notin> chunk_id_of ` set (assign_ids lp idx cs))"
proof (induction cs arbitrary: lp idx)
  case Nil
  then show ?case by simp
next
  case (Cons c cs)
  let ?k = "page_id c"
  show ?case
  proof (cases "lp = Some ?k")
    case same: True
    from Cons.prems same have "distinct (remdups_adj (?k # map page_id cs))" by simp
    from Cons.IH [of "Some ?k" "idx + 1"] this
    have d: "distinct (map chunk_id_of (assign_ids (Some ?k) (idx + 1) cs))"
      and av: "\<And>n. n \<le> idx + 1 \<Longrightarrow>
        Some (?k @ '':'' @ str_nat n) \<notin> chunk_id_of ` set (assign_ids (Some ?k) (idx + 1) cs)"
      by simp_all
    have hd_ne: "?k @ '':'' @ str_nat n \<noteq> ?k @ '':'' @ str_nat (idx + 1)" if "n \<le> idx" for n
    proof
      assume "?k @ '':'' @ str_nat n = ?k @ '':'' @ str_nat (idx + 1)"
      from chunk_id_eq [OF this] that show False by simp
    qed
    from same d av [of "idx + 1"] have "distinct (map chunk_id_of (assign_ids lp idx (c # cs)))"
      by (simp add: Let_def)
    moreover have "\<forall>a n. lp = Some a \<longrightarrow> n \<le> idx \<longrightarrow>
      Some (a @ '':'' @ str_nat n) \<notin> chunk_id_of ` set (assign_ids lp idx (c # cs))"
      using same av hd_ne by (simp add: Let_def)
    ultimately show ?thesis by blast
  next
    case diff: False
    have k: "distinct (remdups_adj (?k # map page_id cs))"
      using Cons.prems diff by (cases lp) (auto split: if_splits)
    from Cons.IH [of "Some ?k" 0] this
    have d: "distinct (map chunk_id_of (assign_ids (Some ?k) 0 cs))"
      and av: "Some (?k @ '':'' @ str_nat 0) \<notin> chunk_id_of ` set (assign_ids (Some ?k) 0 cs)"
      by simp_all
    from diff d av have "distinct (map chunk_id_of (assign_ids lp idx (c # cs)))"
      by (simp add: Let_def)
    moreover have "Some (a @ '':'' @ str_nat n) \<notin> chunk_id_of ` set (assign_ids lp idx (c # cs))"
      if l: "lp = Some a" for a n
    proof -
      from l diff have ne: "a \<noteq> ?k" by simp
      with Cons.prems l have "a \<notin> page_id ` set cs" by (auto split: if_splits)
      from assign_ids_avoid [OF this]
      have "Some (a @ '':'' @ str_nat n) \<notin> chunk_id_of ` set (assign_ids (Some ?k) 0 cs)" .
      moreover from ne have "a @ '':'' @ str_nat n \<noteq> ?k @ '':'' @ str_nat 0"
        using chunk_id_eq by blast
      ultimately show ?thesis using diff by (simp add: Let_def)
    qed
    ultimately show ?thesis by blast
  qed
qed

lemma inj_page_key: "inj (\<lambda>(s, p). s @ '':'' @ str_int p)"
proof (rule injI)
  fix x y :: "string \<times> int"
  assume h: "(\<lambda>(s, p). s @ '':'' @ str_int p) x = (\<lambda>(s, p). s @ '':'' @ str_int p) y"
  obtain s p where x: "x = (s, p)" by (cases x)
  obtain t q where y: "y = (t, q)" by (cases y)
  from h x y have "s @ CHR '':'' # str_int p = t @ CHR '':'' # str_int q" by simp
  from split_at_last_colon [OF this colon_notin_str_int colon_notin_str_int]
  show "x = y" using x y str_int_inj by blast
qed

lemma page_id_as_key: "map page_id cs = map (\<lambda>(s, p). s @ '':'' @ str_int p) (map chunk_key cs)"
  by (simp add: page_id_def chunk_key_def)

lemma page_id_eq_iff: "page_id c = page_id c' \<longleftrightarrow> chunk_key c = chunk_key c'"
proof -
  let ?f = "\<lambda>(s, p). s @ '':'' @ str_int p"
  have "page_id c = ?f (chunk_key c)" "page_id c' = ?f (chunk_key c')"
    by (simp_all add: page_id_def chunk_key_def)
  then show ?thesis using inj_eq [OF inj_page_key] by metis
qed

text \<open>
  Claim C3. When the chunks of a batch come in their per-document, per-page sequence, so
  that all chunks with one (source, page) key are adjacent (collapsing adjacent repetitions
  of the keys leaves no key twice), \<^verbatim>\<open>calculate_chunk_ids\<close> gives pairwise distinct
  identifiers.
\<close>

theorem chunk_ids_distinct:
  assumes "distinct (remdups_adj (map chunk_key chunks))"
  shows "distinct (map chunk_id_of (calculate_chunk_ids chunks))"
proof -
  let ?f = "\<lambda>(s, p). s @ '':'' @ str_int p"
  have "remdups_adj (map page_id chunks) = map ?f (remdups_adj (map chunk_key chunks))"
    unfolding page_id_as_key by (rule remdups_adj_map_injective [OF inj_page_key])
  moreover have "inj_on ?f (set (remdups_adj (map chunk_key chunks)))"
    using inj_page_key by (rule inj_on_subset) simp
  ultimately have "distinct (remdups_adj (map page_id chunks))"
    using assms by (simp add: distinct_map)
  with assign_ids_distinct_gen [where lp = None and cs = chunks and idx = 0] show ?thesis
    by (simp add: calculate_chunk_ids_def)
qed

theorem chunk_ids_distinct_witness:
  "distinct (remdups_adj (map chunk_key
      [example_chunk ''f'' 1 ''x'', example_chunk ''f'' 1 ''y'', example_chunk ''f'' 2 ''z''])) \<and>
   map chunk_id_of (calculate_chunk_ids
      [example_chunk ''f'' 1 ''x'', example_chunk ''f'' 1 ''y'', example_chunk ''f'' 2 ''z'']) =
     [Some ''f:1:0'', Some ''f:1:1'', Some ''f:2:0''] \<and>
   distinct (map chunk_id_of (calculate_chunk_ids
      [example_chunk ''f'' 1 ''x'', example_chunk ''f'' 1 ''y'', example_chunk ''f'' 2 ''z'']))"
proof -
  let ?cs = "[example_chunk ''f'' 1 ''x'', example_chunk ''f'' 1 ''y'', example_chunk ''f'' 2 ''z'']"
  have h: "distinct (remdups_adj (map chunk_key ?cs))"
    by (simp add: chunk_key_def example_chunk_def source_or_empty_def page_or_zero_def)
  have v: "map chunk_id_of (calculate_chunk_ids ?cs) = [Some ''f:1:0'', Some ''f:1:1'', Some ''f:2:0'']"
    by (simp add: calculate_chunk_ids_def Let_def page_id_def example_chunk_def
        source_or_empty_def page_or_zero_def str_small)
  from h v chunk_ids_distinct [OF h] show ?thesis by blast
qed

lemma assign_ids_length [simp]: "length (assign_ids lp idx cs) = length cs"
  by (induction cs arbitrary: lp idx) (simp_all add: Let_def)

lemma assign_ids_first:
  "chunk_id_of (assign_ids lp idx (c # cs) ! 0) =
   Some (page_id c @ '':'' @ str_nat (if Some (page_id c) = lp then idx + 1 else 0))"
  by (simp add: Let_def)

lemma assign_ids_step:
  "Suc i < length cs \<Longrightarrow>
   (page_id (cs ! Suc i) = page_id (cs ! i) \<longrightarrow>
      (\<exists>n. chunk_id_of (assign_ids lp idx cs ! i) = Some (page_id (cs ! i) @ '':'' @ str_nat n) \<and>
           chunk_id_of (assign_ids lp idx cs ! Suc i) =
             Some (page_id (cs ! Suc i) @ '':'' @ str_nat (Suc n)))) \<and>
   (page_id (cs ! Suc i) \<noteq> page_id (cs ! i) \<longrightarrow>
      chunk_id_of (assign_ids lp idx cs ! Suc i) = Some (page_id (cs ! Suc i) @ '':'' @ str_nat 0))"
proof (induction cs arbitrary: lp idx i)
  case Nil
  then show ?case by simp
next
  case (Cons c cs)
  show ?case
  proof (cases i)
    case 0
    with Cons.prems obtain c' cs' where cs: "cs = c' # cs'" by (cases cs) auto
    with 0 show ?thesis by (auto simp add: Let_def)
  next
    case (Suc j)
    with Cons.prems have "Suc j < length cs" by simp
    from Cons.IH [OF this] Suc show ?thesis by (simp add: Let_def)
  qed
qed

text \<open>
  Claim C4. The index of the first chunk is 0; from one chunk to the next the index grows
  by one when the page key stays the same and is 0 again when it changes. So chunks with the
  page keys a, a, b, a (a and b different) get the indices 0, 1, 0, 0: the count does not
  go on over occurrences of a key that are apart.
\<close>

theorem counter_reset_law:
  "(chunks \<noteq> [] \<longrightarrow>
      chunk_id_of (calculate_chunk_ids chunks ! 0) = Some (page_id (chunks ! 0) @ '':'' @ str_nat 0)) \<and>
   (\<forall>i. Suc i < length chunks \<longrightarrow>
      (page_id (chunks ! Suc i) = page_id (chunks ! i) \<longrightarrow>
        (\<exists>n. chunk_id_of (calculate_chunk_ids chunks ! i) =
                Some (page_id (chunks ! i) @ '':'' @ str_nat n) \<and>
             chunk_id_of (calculate_chunk_ids chunks ! Suc i) =
                Some (page_id (chunks ! Suc i) @ '':'' @ str_nat (Suc n)))) \<and>
      (page_id (chunks ! Suc i) \<noteq> page_id (chunks ! i) \<longrightarrow>
        chunk_id_of (calculate_chunk_ids chunks ! Suc i) =
          Some (page_id (chunks ! Suc i) @ '':'' @ str_nat 0))) \<and>
   (page_id c1 = a \<and> page_id c2 = a \<and> page_id c3 = b \<and> page_id c4 = a \<and> a \<noteq> b \<longrightarrow>
      map chunk_id_of (calculate_chunk_ids [c1, c2, c3, c4]) =
        [Some (a @ '':'' @ str_nat 0), Some (a @ '':'' @ str_nat 1),
         Some (b @ '':'' @ str_nat 0), Some (a @ '':'' @ str_nat 0)])"
proof (intro conjI allI impI)
  assume "chunks \<noteq> []"
  then obtain c cs where "chunks = c # cs" by (cases chunks) auto
  then show "chunk_id_of (calculate_chunk_ids chunks ! 0) =
      Some (page_id (chunks ! 0) @ '':'' @ str_nat 0)"
    by (simp add: calculate_chunk_ids_def Let_def)
next
  fix i assume "Suc i < length chunks" "page_id (chunks ! Suc i) = page_id (chunks ! i)"
  with assign_ids_step [of i chunks None 0]
  show "\<exists>n. chunk_id_of (calculate_chunk_ids chunks ! i) =
                Some (page_id (chunks ! i) @ '':'' @ str_nat n) \<and>
             chunk_id_of (calculate_chunk_ids chunks ! Suc i) =
                Some (page_id (chunks ! Suc i) @ '':'' @ str_nat (Suc n))"
    by (simp add: calculate_chunk_ids_def)
next
  fix i assume "Suc i < length chunks" "page_id (chunks ! Suc i) \<noteq> page_id (chunks ! i)"
  with assign_ids_step [of i chunks None 0]
  show "chunk_id_of (calculate_chunk_ids chunks ! Suc i) =
          Some (page_id (chunks ! Suc i) @ '':'' @ str_nat 0)"
    by (simp add: calculate_chunk_ids_def)
next
  assume "page_id c1 = a \<and> page_id c2 = a \<and> page_id c3 = b \<and> page_id c4 = a \<and> a \<noteq> b"
  then show "map chunk_id_of (calculate_chunk_ids [c1, c2, c3, c4]) =
        [Some (a @ '':'' @ str_nat 0), Some (a @ '':'' @ str_nat 1),
         Some (b @ '':'' @ str_nat 0), Some (a @ '':'' @ str_nat 0)]"
    by (auto simp add: calculate_chunk_ids_def Let_def)
qed

theorem counter_reset_law_witness:
  "[example_chunk ''f'' 1 ''w'', example_chunk ''f'' 1 ''x'', example_chunk ''f'' 2 ''y'',
    example_chunk ''f'' 1 ''z''] \<noteq> [] \<and>
   page_id (example_chunk ''f'' 1 ''x'') = page_id (example_chunk ''f'' 1 ''w'') \<and>
   page_id (example_chunk ''f'' 2 ''y'') \<noteq> page_id (example_chunk ''f'' 1 ''x'') \<and>
   map chunk_id_of (calculate_chunk_ids
      [example_chunk ''f'' 1 ''w'', example_chunk ''f'' 1 ''x'', example_chunk ''f'' 2 ''y'',
       example_chunk ''f'' 1 ''z'']) =
    [Some ''f:1:0'', Some ''f:1:1'', Some ''f:2:0'', Some ''f:1:0'']"
proof -
  let ?cs = "[example_chunk ''f'' 1 ''w'', example_chunk ''f'' 1 ''x'', example_chunk ''f'' 2 ''y'',
    example_chunk ''f'' 1 ''z'']"
  have k: "page_id (example_chunk ''f'' 1 ''w'') = ''f:1''" "page_id (example_chunk ''f'' 1 ''x'') = ''f:1''"
    "page_id (example_chunk ''f'' 2 ''y'') = ''f:2''" "page_id (example_chunk ''f'' 1 ''z'') = ''f:1''"
    by (simp_all add: page_id_def example_chunk_def source_or_empty_def page_or_zero_def str_small)
  have ne: "''f:1'' \<noteq> ''f:2''" by simp
  note law = counter_reset_law [of ?cs "example_chunk ''f'' 1 ''w''" "''f:1''"
      "example_chunk ''f'' 1 ''x''" "example_chunk ''f'' 2 ''y''" "''f:2''" "example_chunk ''f'' 1 ''z''"]
  from k ne law [THEN conjunct2, THEN conjunct2]
  have "map chunk_id_of (calculate_chunk_ids ?cs) =
      [Some (''f:1'' @ '':'' @ str_nat 0), Some (''f:1'' @ '':'' @ str_nat 1),
       Some (''f:2'' @ '':'' @ str_nat 0), Some (''f:1'' @ '':'' @ str_nat 0)]"
    by blast
  then have "map chunk_id_of (calculate_chunk_ids ?cs) =
      [Some ''f:1:0'', Some ''f:1:1'', Some ''f:2:0'', Some ''f:1:0'']"
    by (simp add: str_small)
  with k show ?thesis by simp
qed

subsection \<open>Deleting by source\<close>

lemma collect_ids_to_delete_filter:
  "collect_ids_to_delete e d n zs = map fst (filter (\<lambda>z. source_matches e d n (snd z)) zs)"
  by (induction zs) (auto simp: source_matches_def Let_def)

lemma zip_ids_metas:
  "zip (map fst rs) (map (doc_meta \<circ> snd) rs) = map (\<lambda>r. (fst r, doc_meta (snd r))) rs"
  by (induction rs) auto

lemma ids_to_delete_records:
  "collect_ids_to_delete e (path_is_dir e (normalize_source_path e (Some p)))
     (normalize_source_path e (Some p)) (zip (map fst rs) (map (doc_meta \<circ> snd) rs)) =
   map fst (filter (record_matches e p) rs)"
  unfolding collect_ids_to_delete_filter zip_ids_metas
  by (induction rs) (simp_all add: record_matches_def)

lemma delete_Some:
  "delete_from_chroma_by_source e (Some rs) p =
     (if filter (record_matches e p) rs = [] then (0, Some rs)
      else (length (filter (record_matches e p) rs),
            Some (filter (\<lambda>r. fst r \<notin> fst ` set (filter (record_matches e p) rs)) rs)))"
  by (simp add: delete_from_chroma_by_source_def db_get_def Let_def ids_to_delete_records db_delete_def)

lemma delete_None: "delete_from_chroma_by_source e None p = (0, None)"
  by (simp add: delete_from_chroma_by_source_def db_get_def)

lemma filter_by_ids_distinct:
  assumes "distinct (map fst rs)"
  shows "filter (\<lambda>r. fst r \<notin> fst ` set (filter M rs)) rs = filter (\<lambda>r. \<not> M r) rs"
proof (rule filter_cong [OF refl])
  fix r assume r: "r \<in> set rs"
  from assms have inj: "inj_on fst (set rs)" by (simp add: distinct_map)
  show "(fst r \<notin> fst ` set (filter M rs)) = (\<not> M r)"
  proof
    assume "fst r \<notin> fst ` set (filter M rs)"
    with r show "\<not> M r" by force
  next
    assume n: "\<not> M r"
    show "fst r \<notin> fst ` set (filter M rs)"
    proof
      assume "fst r \<in> fst ` set (filter M rs)"
      then obtain r' where r': "r' \<in> set rs" "M r'" "fst r' = fst r" by auto
      with inj r have "r' = r" by (auto dest: inj_onD)
      with r' n show False by simp
    qed
  qed
qed

lemma length_filter_minus:
  "length (filter P xs) = length xs - length (filter (\<lambda>x. \<not> P x) xs)"
  using sum_length_filter_compl [of P xs] by simp

lemma delete_Some_distinct:
  assumes "distinct (map fst rs)"
  shows "delete_from_chroma_by_source e (Some rs) p =
     (length (filter (record_matches e p) rs), Some (filter (\<lambda>r. \<not> record_matches e p r) rs))"
proof (cases "filter (record_matches e p) rs = []")
  case True
  then have "filter (\<lambda>r. \<not> record_matches e p r) rs = rs"
    by (simp add: filter_empty_conv)
  with True show ?thesis by (simp add: delete_Some)
next
  case False
  with filter_by_ids_distinct [OF assms, of "record_matches e p"] show ?thesis
    by (simp add: delete_Some)
qed

text \<open>
  Claim C6. On a store whose identifiers are pairwise distinct, \<^verbatim>\<open>delete_from_chroma_by_source\<close>
  removes exactly the matching records and returns how many records it removed; when no
  record matches it returns 0 and leaves the store as it is; on an empty or a never
  initialised store it returns 0 and raises nothing.
\<close>

theorem delete_returns_removed_count:
  "(distinct (map fst rs) \<longrightarrow>
      delete_from_chroma_by_source e (Some rs) p =
        (length rs - length (filter (\<lambda>r. \<not> record_matches e p r) rs),
         Some (filter (\<lambda>r. \<not> record_matches e p r) rs))) \<and>
   ((\<forall>r \<in> set rs. \<not> record_matches e p r) \<longrightarrow>
      delete_from_chroma_by_source e (Some rs) p = (0, Some rs)) \<and>
   delete_from_chroma_by_source e (Some []) p = (0, Some []) \<and>
   delete_from_chroma_by_source e None p = (0, None)"
proof (intro conjI impI)
  assume "distinct (map fst rs)"
  from delete_Some_distinct [OF this] length_filter_minus [of "record_matches e p" rs]
  show "delete_from_chroma_by_source e (Some rs) p =
        (length rs - length (filter (\<lambda>r. \<not> record_matches e p r) rs),
         Some (filter (\<lambda>r. \<not> record_matches e p r) rs))" by simp
next
  assume "\<forall>r \<in> set rs. \<not> record_matches e p r"
  then have "filter (record_matches e p) rs = []" by (simp add: filter_empty_conv)
  then show "delete_from_chroma_by_source e (Some rs) p = (0, Some rs)"
    by (simp add: delete_Some)
next
  show "delete_from_chroma_by_source e (Some []) p = (0, Some [])" by (simp add: delete_Some)
next
  show "delete_from_chroma_by_source e None p = (0, None)" by (rule delete_None)
qed

lemma example_records_distinct:
  "distinct (map fst [example_record ''/data/report2.txt'', example_record ''/data/report/a.txt''])"
  by (simp add: example_record_def)

lemma example_record_matches:
  "src \<noteq> [] \<Longrightarrow> record_matches example_env p (example_record src) \<longleftrightarrow>
     (if path_is_dir example_env p then startswith src p else src = p)"
  by (simp add: record_matches_def source_matches_def example_record_def example_env_def
      normalize_source_path_def source_or_empty_def)

theorem delete_returns_removed_count_witness:
  "distinct (map fst [example_record ''/data/report2.txt'', example_record ''/data/report/a.txt'']) \<and>
   delete_from_chroma_by_source example_env
      (Some [example_record ''/data/report2.txt'', example_record ''/data/report/a.txt''])
      ''/data/report/a.txt'' = (1, Some [example_record ''/data/report2.txt'']) \<and>
   \<not> record_matches example_env ''/nowhere'' (example_record ''/data/report2.txt'') \<and>
   \<not> record_matches example_env ''/nowhere'' (example_record ''/data/report/a.txt'') \<and>
   delete_from_chroma_by_source example_env
      (Some [example_record ''/data/report2.txt'', example_record ''/data/report/a.txt''])
      ''/nowhere'' =
     (0, Some [example_record ''/data/report2.txt'', example_record ''/data/report/a.txt''])"
proof -
  let ?rs = "[example_record ''/data/report2.txt'', example_record ''/data/report/a.txt'']"
  have d: "path_is_dir example_env ''/data/report/a.txt'' = False"
    "path_is_dir example_env ''/nowhere'' = False"
    by (simp_all add: example_env_def)
  have n: "\<forall>r \<in> set ?rs. \<not> record_matches example_env ''/nowhere'' r"
    by (simp add: example_record_matches d)
  note t1 = delete_returns_removed_count [of ?rs example_env "''/data/report/a.txt''"]
  note t2 = delete_returns_removed_count [of ?rs example_env "''/nowhere''"]
  from t1 [THEN conjunct1] example_records_distinct
  have "delete_from_chroma_by_source example_env (Some ?rs) ''/data/report/a.txt'' =
      (1, Some [example_record ''/data/report2.txt''])"
    by (simp add: example_record_matches d)
  moreover from t2 [THEN conjunct2, THEN conjunct1] n
  have "delete_from_chroma_by_source example_env (Some ?rs) ''/nowhere'' = (0, Some ?rs)"
    by blast
  ultimately show ?thesis using example_records_distinct n by simp
qed

subsection \<open>Listing sources\<close>

lemma count_sources_at:
  "count_sources e acc zs k =
     (let n = length (filter (\<lambda>z. carries_source e k (snd z)) zs)
      in if n = 0 then acc k else Some ((case acc k of None \<Rightarrow> 0 | Some v \<Rightarrow> v) + n))"
proof (induction zs arbitrary: acc)
  case Nil
  then show ?case by simp
next
  case (Cons z zs)
  obtain i m where z: "z = (i, m)" by (cases z)
  show ?case
  proof (cases "md_source m")
    case None
    with z Cons.IH [of acc] show ?thesis
      by (simp add: carries_source_def source_or_empty_def)
  next
    case (Some src)
    show ?thesis
    proof (cases "src = []")
      case True
      with Some z Cons.IH [of acc] show ?thesis
        by (simp add: carries_source_def source_or_empty_def)
    next
      case False
      let ?n = "normalize_source_path e (Some src)"
      let ?acc = "acc(?n \<mapsto> (case acc ?n of None \<Rightarrow> 0 | Some k \<Rightarrow> k) + 1)"
      from Some False z have step: "count_sources e acc (z # zs) k = count_sources e ?acc zs k"
        by (simp add: Let_def)
      from Some False have c: "carries_source e k m \<longleftrightarrow> ?n = k"
        by (simp add: carries_source_def source_or_empty_def)
      show ?thesis
        unfolding step Cons.IH [of ?acc] using c z
        by (cases "?n = k") (auto simp: Let_def)
    qed
  qed
qed

lemma list_sources_at:
  "list_sources_in_chroma e (Some rs) k =
     (let n = length (filter (\<lambda>r. carries_source e k (doc_meta (snd r))) rs)
      in if n = 0 then None else Some n)"
proof -
  have "filter (\<lambda>z. carries_source e k (snd z)) (map (\<lambda>r. (fst r, doc_meta (snd r))) rs) =
        map (\<lambda>r. (fst r, doc_meta (snd r))) (filter (\<lambda>r. carries_source e k (doc_meta (snd r))) rs)"
    by (simp add: filter_map comp_def)
  then show ?thesis
    by (simp add: list_sources_in_chroma_def db_get_def zip_ids_metas count_sources_at Let_def)
qed

lemma list_sources_None: "list_sources_in_chroma e None = Map.empty"
  by (simp add: list_sources_in_chroma_def db_get_def)

text \<open>
  Claim C7. \<^verbatim>\<open>list_sources_in_chroma\<close> scans the metadata of all records and maps each
  normalised source path to the number of records that carry it (a path no record carries
  is no key); on an empty or a never initialised store the mapping is empty and nothing is
  raised.
\<close>

theorem list_sources_counts:
  "list_sources_in_chroma e (Some rs) k =
     (let n = length (filter (\<lambda>r. carries_source e k (doc_meta (snd r))) rs)
      in if n = 0 then None else Some n) \<and>
   list_sources_in_chroma e (Some []) = Map.empty \<and>
   list_sources_in_chroma e None = Map.empty"
  by (simp add: list_sources_at list_sources_None [unfolded fun_eq_iff] fun_eq_iff del: One_nat_def)

lemma example_carries_source:
  "src \<noteq> [] \<Longrightarrow> carries_source example_env k (doc_meta (snd (example_record src))) \<longleftrightarrow> src = k"
  by (simp add: carries_source_def example_record_def example_env_def normalize_source_path_def
      source_or_empty_def)

theorem list_sources_counts_witness:
  "list_sources_in_chroma example_env
      (Some [example_record ''/data/report2.txt'', example_record ''/data/report/a.txt''])
      ''/data/report2.txt'' = Some 1 \<and>
   list_sources_in_chroma example_env
      (Some [example_record ''/data/report2.txt'', example_record ''/data/report/a.txt''])
      ''/nowhere'' = None"
  using list_sources_counts [of example_env
      "[example_record ''/data/report2.txt'', example_record ''/data/report/a.txt'']" "''/data/report2.txt''"]
    list_sources_counts [of example_env
      "[example_record ''/data/report2.txt'', example_record ''/data/report/a.txt'']" "''/nowhere''"]
  by (simp add: example_carries_source)

subsection \<open>Adding chunks\<close>

lemma existing_ids_of_eq: "existing_ids_of db = store_ids db"
  by (cases db) (simp_all add: existing_ids_of_def db_get_def store_ids_def store_records_def)

lemma assign_ids_has_id:
  "d \<in> set (assign_ids lp idx cs) \<Longrightarrow> chunk_id_of d = Some (chunk_ident d)"
  using assign_ids_form [of d lp idx cs] by (auto simp: chunk_ident_def)

lemma candidate_has_id:
  "d \<in> set (candidate_chunks e chunks) \<Longrightarrow> chunk_id_of d = Some (chunk_ident d)"
  unfolding candidate_chunks_def calculate_chunk_ids_def by (rule assign_ids_has_id)

lemma those_ids:
  "(\<And>d. d \<in> set xs \<Longrightarrow> chunk_id_of d = Some (chunk_ident d)) \<Longrightarrow>
   those (map chunk_id_of xs) = Some (map chunk_ident xs)"
  by (induction xs) simp_all

lemma filter_new_candidates:
  "filter (is_new_chunk ids) (candidate_chunks e chunks) =
   filter (\<lambda>c. chunk_ident c \<notin> set ids) (candidate_chunks e chunks)"
  by (rule filter_cong [OF refl]) (simp add: is_new_chunk_def candidate_has_id)

lemma batch_calls_concat:
  "0 < bs \<Longrightarrow> concat (map fst (batch_calls i bs xs ids)) = drop i xs"
proof (induction i bs xs ids rule: batch_calls.induct)
  case (1 i bs xs ids)
  show ?case
  proof (cases "length xs \<le> i")
    case True
    then show ?thesis by (simp add: batch_calls.simps [of i])
  next
    case False
    with "1.prems" "1.IH" have "concat (map fst (batch_calls (i + bs) bs xs ids)) = drop (i + bs) xs"
      by simp
    moreover have "take bs (drop i xs) @ drop (i + bs) xs = drop i xs"
      by (metis add.commute append_take_drop_id drop_drop)
    ultimately show ?thesis using False "1.prems" by (simp add: batch_calls.simps [of i])
  qed
qed

lemma batch_calls_zip:
  "0 < bs \<Longrightarrow> concat (map (\<lambda>(b, bi). zip bi b) (batch_calls i bs xs ids)) = drop i (zip ids xs)"
proof (induction i bs xs ids rule: batch_calls.induct)
  case (1 i bs xs ids)
  show ?case
  proof (cases "length xs \<le> i")
    case True
    then show ?thesis by (simp add: batch_calls.simps [of i] drop_zip)
  next
    case False
    with "1.prems" "1.IH"
    have "concat (map (\<lambda>(b, bi). zip bi b) (batch_calls (i + bs) bs xs ids)) = drop (i + bs) (zip ids xs)"
      by simp
    moreover have "zip (take bs (drop i ids)) (take bs (drop i xs)) = take bs (drop i (zip ids xs))"
      by (simp add: take_zip drop_zip)
    moreover have "take bs (drop i (zip ids xs)) @ drop (i + bs) (zip ids xs) = drop i (zip ids xs)"
      by (metis add.commute append_take_drop_id drop_drop)
    ultimately show ?thesis using False "1.prems" by (simp add: batch_calls.simps [of i])
  qed
qed

lemma batch_calls_bounds:
  "0 < bs \<Longrightarrow> (b, bi) \<in> set (batch_calls i bs xs ids) \<Longrightarrow> b \<noteq> [] \<and> length b \<le> bs"
proof (induction i bs xs ids rule: batch_calls.induct)
  case (1 i bs xs ids)
  show ?case
  proof (cases "length xs \<le> i")
    case True
    with "1.prems" show ?thesis by (simp add: batch_calls.simps [of i])
  next
    case False
    with "1.prems" have "(b, bi) = (take bs (drop i xs), take bs (drop i ids)) \<or>
        (b, bi) \<in> set (batch_calls (i + bs) bs xs ids)"
      by (simp add: batch_calls.simps [of i])
    then show ?thesis
    proof
      assume "(b, bi) = (take bs (drop i xs), take bs (drop i ids))"
      with False "1.prems" show ?thesis by auto
    next
      assume "(b, bi) \<in> set (batch_calls (i + bs) bs xs ids)"
      with False "1.prems" "1.IH" show ?thesis by simp
    qed
  qed
qed

lemma fold_add_records:
  "store_records (fold (\<lambda>(b, bi). db_add_documents b bi) calls db) =
   store_records db @ concat (map (\<lambda>(b, bi). zip bi b) calls)"
proof (induction calls arbitrary: db)
  case Nil
  then show ?case by simp
next
  case (Cons c calls)
  obtain b bi where c: "c = (b, bi)" by (cases c)
  have "store_records (db_add_documents b bi db) = store_records db @ zip bi b"
    by (simp add: db_add_documents_def store_records_def)
  with c Cons.IH [of "db_add_documents b bi db"] show ?case by simp
qed

lemma zip_ident: "zip (map chunk_ident xs) xs = map (\<lambda>c. (chunk_ident c, c)) xs"
  by (induction xs) simp_all

lemma add_to_chroma_unfold:
  "add_to_chroma e chunks batch_size db =
     (let new_chunks = filter (\<lambda>c. chunk_ident c \<notin> set (store_ids db)) (candidate_chunks e chunks)
      in if new_chunks = [] then Inr (0, db)
         else if batch_size = 0 then Inl ValueError
         else Inr (length new_chunks,
                   fold (\<lambda>(b, bi). db_add_documents b bi)
                     (batch_calls 0 (nat batch_size) new_chunks (map chunk_ident new_chunks)) db))"
proof (cases "chunks = []")
  case True
  then show ?thesis
    by (simp add: add_to_chroma_def candidate_chunks_def calculate_chunk_ids_def)
next
  case False
  let ?new = "filter (\<lambda>c. chunk_ident c \<notin> set (store_ids db)) (candidate_chunks e chunks)"
  have "those (map chunk_id_of ?new) = Some (map chunk_ident ?new)"
    by (rule those_ids) (auto dest: candidate_has_id)
  with False show ?thesis
    unfolding add_to_chroma_def Let_def existing_ids_of_eq
      candidate_chunks_def [symmetric] filter_new_candidates
    by simp
qed

text \<open>
  Claim C5. For a positive batch size, \<^verbatim>\<open>add_to_chroma\<close> adds exactly the candidate
  chunks whose identifier the store does not hold yet, in their order and each once, by
  \<^verbatim>\<open>add_documents\<close> calls of at most \<open>batch_size\<close> chunks each, and returns how many
  it added: 0, with the store untouched, when every candidate is present already or there
  is no chunk.
\<close>

theorem add_to_chroma_new_only:
  assumes "0 < batch_size"
  shows "let new_chunks = filter (\<lambda>c. chunk_ident c \<notin> set (store_ids db)) (candidate_chunks e chunks);
             calls = batch_calls 0 (nat batch_size) new_chunks (map chunk_ident new_chunks)
         in \<exists>db'. add_to_chroma e chunks batch_size db = Inr (length new_chunks, db') \<and>
              store_records db' = store_records db @ map (\<lambda>c. (chunk_ident c, c)) new_chunks \<and>
              (new_chunks = [] \<longrightarrow> db' = db) \<and>
              (new_chunks \<noteq> [] \<longrightarrow> db' = fold (\<lambda>(b, bi). db_add_documents b bi) calls db) \<and>
              concat (map fst calls) = new_chunks \<and>
              (\<forall>(b, bi) \<in> set calls. b \<noteq> [] \<and> length b \<le> nat batch_size)"
proof -
  let ?new = "filter (\<lambda>c. chunk_ident c \<notin> set (store_ids db)) (candidate_chunks e chunks)"
  let ?calls = "batch_calls 0 (nat batch_size) ?new (map chunk_ident ?new)"
  let ?db' = "if ?new = [] then db else fold (\<lambda>(b, bi). db_add_documents b bi) ?calls db"
  from assms have bs: "0 < nat batch_size" by simp
  from assms have r: "add_to_chroma e chunks batch_size db = Inr (length ?new, ?db')"
    by (simp add: add_to_chroma_unfold Let_def)
  have rec: "store_records ?db' = store_records db @ map (\<lambda>c. (chunk_ident c, c)) ?new"
    using batch_calls_zip [OF bs, of 0 ?new "map chunk_ident ?new"]
    by (simp add: fold_add_records zip_ident)
  have cc: "concat (map fst ?calls) = ?new"
    using batch_calls_concat [OF bs, of 0 ?new "map chunk_ident ?new"] by simp
  have bd: "\<forall>(b, bi) \<in> set ?calls. b \<noteq> [] \<and> length b \<le> nat batch_size"
    using batch_calls_bounds [OF bs] by blast
  from r rec cc bd show ?thesis unfolding Let_def by (intro exI [of _ ?db']) simp
qed

lemma example_candidates3:
  "candidate_chunks example_env
     [example_chunk ''f'' 1 ''x'', example_chunk ''f'' 1 ''y'', example_chunk ''f'' 2 ''z''] =
   [set_id (example_chunk ''f'' 1 ''x'') ''f:1:0'', set_id (example_chunk ''f'' 1 ''y'') ''f:1:1'',
    set_id (example_chunk ''f'' 2 ''z'') ''f:2:0'']"
  by (simp add: candidate_chunks_def calculate_chunk_ids_def normalize_chunk_source_def
      example_env_def normalize_source_path_def Let_def page_id_def source_or_empty_def
      page_or_zero_def set_id_def example_chunk_def str_small)

lemma example_new3:
  "filter (\<lambda>c. chunk_ident c \<notin> set (store_ids (Some [(''f:1:0'', example_chunk ''f'' 1 ''old'')])))
     (candidate_chunks example_env
        [example_chunk ''f'' 1 ''x'', example_chunk ''f'' 1 ''y'', example_chunk ''f'' 2 ''z'']) =
   [set_id (example_chunk ''f'' 1 ''y'') ''f:1:1'', set_id (example_chunk ''f'' 2 ''z'') ''f:2:0'']"
  unfolding example_candidates3
  by (simp add: store_ids_def store_records_def chunk_ident_def)

theorem add_to_chroma_new_only_witness:
  "0 < (1::int) \<and>
   (\<exists>db'. add_to_chroma example_env
        [example_chunk ''f'' 1 ''x'', example_chunk ''f'' 1 ''y'', example_chunk ''f'' 2 ''z''] 1
        (Some [(''f:1:0'', example_chunk ''f'' 1 ''old'')]) = Inr (2, db') \<and>
      store_records db' =
        [(''f:1:0'', example_chunk ''f'' 1 ''old''),
         (''f:1:1'', set_id (example_chunk ''f'' 1 ''y'') ''f:1:1''),
         (''f:2:0'', set_id (example_chunk ''f'' 2 ''z'') ''f:2:0'')])"
proof -
  have h: "0 < (1::int)" by simp
  note t = add_to_chroma_new_only [OF h, of "Some [(''f:1:0'', example_chunk ''f'' 1 ''old'')]"
      example_env "[example_chunk ''f'' 1 ''x'', example_chunk ''f'' 1 ''y'', example_chunk ''f'' 2 ''z'']",
      unfolded Let_def example_new3]
  then obtain db' where
    "add_to_chroma example_env
        [example_chunk ''f'' 1 ''x'', example_chunk ''f'' 1 ''y'', example_chunk ''f'' 2 ''z''] 1
        (Some [(''f:1:0'', example_chunk ''f'' 1 ''old'')]) =
      Inr (length [set_id (example_chunk ''f'' 1 ''y'') ''f:1:1'',
                   set_id (example_chunk ''f'' 2 ''z'') ''f:2:0''], db')"
    and "store_records db' = store_records (Some [(''f:1:0'', example_chunk ''f'' 1 ''old'')]) @
      map (\<lambda>c. (chunk_ident c, c))
        [set_id (example_chunk ''f'' 1 ''y'') ''f:1:1'', set_id (example_chunk ''f'' 2 ''z'') ''f:2:0'']"
    by blast
  then have "add_to_chroma example_env
        [example_chunk ''f'' 1 ''x'', example_chunk ''f'' 1 ''y'', example_chunk ''f'' 2 ''z''] 1
        (Some [(''f:1:0'', example_chunk ''f'' 1 ''old'')]) = Inr (2, db') \<and>
      store_records db' =
        [(''f:1:0'', example_chunk ''f'' 1 ''old''),
         (''f:1:1'', set_id (example_chunk ''f'' 1 ''y'') ''f:1:1''),
         (''f:2:0'', set_id (example_chunk ''f'' 2 ''z'') ''f:2:0'')]"
    by (simp add: store_records_def chunk_ident_def)
  with h show ?thesis by blast
qed

subsection \<open>Indexing a path twice\<close>

lemma purge_no_match: "r \<in> set (purge M rs) \<Longrightarrow> \<not> M r"
  by (auto simp: purge_def)

lemma fst_tag [simp]: "fst (tag c) = chunk_ident c"
  by (simp add: tag_def)

lemma reindex_twice:
  assumes det: "\<And>c c'. c \<in> set C \<Longrightarrow> c' \<in> set C \<Longrightarrow> chunk_ident c = chunk_ident c' \<Longrightarrow>
                  M (tag c) = M (tag c')"
    and A: "\<And>r. r \<in> set A \<Longrightarrow> \<not> M r"
  defines "S1 \<equiv> A @ map tag (fresh A C)"
  shows "purge M S1 = A @ map tag (filter (\<lambda>c. \<not> M (tag c)) (fresh A C))"
    and "fresh (purge M S1) C = filter (\<lambda>c. M (tag c)) (fresh A C)"
    and "length (filter M S1) = length (filter (\<lambda>c. M (tag c)) (fresh A C))"
proof -
  let ?N = "fresh A C"
  have NC: "set ?N \<subseteq> set C" by (auto simp: fresh_def)
  have noA: "filter M A = []" using A by (simp add: filter_empty_conv)
  have fm: "filter M S1 = map tag (filter (\<lambda>c. M (tag c)) ?N)"
    by (simp add: S1_def noA filter_map comp_def)
  then show "length (filter M S1) = length (filter (\<lambda>c. M (tag c)) ?N)" by simp
  have D: "fst ` set (filter M S1) = chunk_ident ` {c \<in> set ?N. M (tag c)}"
    unfolding fm by (auto simp: image_iff)
  have keepA: "filter (\<lambda>r. fst r \<notin> fst ` set (filter M S1)) A = A"
  proof -
    have "fst r \<notin> fst ` set (filter M S1)" if "r \<in> set A" for r
    proof
      assume "fst r \<in> fst ` set (filter M S1)"
      with D obtain c where "c \<in> set ?N" "fst r = chunk_ident c" by auto
      with that show False by (force simp: fresh_def)
    qed
    then show ?thesis by (simp add: filter_id_conv)
  qed
  have keepN: "filter (\<lambda>r. fst r \<notin> fst ` set (filter M S1)) (map tag ?N) =
               map tag (filter (\<lambda>c. \<not> M (tag c)) ?N)"
  proof -
    have "(chunk_ident c \<notin> fst ` set (filter M S1)) = (\<not> M (tag c))" if c: "c \<in> set ?N" for c
    proof
      assume "chunk_ident c \<notin> fst ` set (filter M S1)"
      with D c show "\<not> M (tag c)" by auto
    next
      assume n: "\<not> M (tag c)"
      show "chunk_ident c \<notin> fst ` set (filter M S1)"
      proof
        assume "chunk_ident c \<in> fst ` set (filter M S1)"
        with D obtain c' where c': "c' \<in> set ?N" "M (tag c')" "chunk_ident c = chunk_ident c'"
          by auto
        with det [of c c'] c NC n show False by blast
      qed
    qed
    then have "filter (\<lambda>c. chunk_ident c \<notin> fst ` set (filter M S1)) ?N =
               filter (\<lambda>c. \<not> M (tag c)) ?N"
      by (intro filter_cong [OF refl]) simp
    then show ?thesis by (simp add: filter_map comp_def)
  qed
  show P: "purge M S1 = A @ map tag (filter (\<lambda>c. \<not> M (tag c)) ?N)"
    unfolding purge_def using keepA keepN by (simp add: S1_def)
  have "(chunk_ident c \<notin> fst ` set (purge M S1)) = (chunk_ident c \<notin> fst ` set A \<and> M (tag c))"
    if c: "c \<in> set C" for c
  proof (cases "chunk_ident c \<in> fst ` set A")
    case True
    then show ?thesis unfolding P by auto
  next
    case False
    with c have cN: "c \<in> set ?N" by (simp add: fresh_def)
    show ?thesis
    proof (cases "M (tag c)")
      case True
      have "chunk_ident c \<notin> chunk_ident ` {c' \<in> set ?N. \<not> M (tag c')}"
      proof
        assume "chunk_ident c \<in> chunk_ident ` {c' \<in> set ?N. \<not> M (tag c')}"
        then obtain c' where c': "c' \<in> set ?N" "\<not> M (tag c')" "chunk_ident c = chunk_ident c'"
          by auto
        with det [of c c'] c NC True show False by blast
      qed
      with False True show ?thesis unfolding P by (auto simp: image_iff)
    next
      case F: False
      with cN have "chunk_ident c \<in> fst ` set (map tag (filter (\<lambda>c. \<not> M (tag c)) ?N))"
        by (force simp: image_iff)
      with F show ?thesis unfolding P by auto
    qed
  qed
  then have "filter (\<lambda>c. chunk_ident c \<notin> fst ` set (purge M S1)) C =
             filter (\<lambda>c. chunk_ident c \<notin> fst ` set A \<and> M (tag c)) C"
    by (intro filter_cong [OF refl]) simp
  then show "fresh (purge M S1) C = filter (\<lambda>c. M (tag c)) ?N"
    by (simp add: fresh_def conj_commute)
qed

lemma delete_fst:
  "fst (delete_from_chroma_by_source e db p) = length (filter (record_matches e p) (store_records db))"
  by (cases db) (simp_all add: delete_Some delete_None store_records_def)

lemma delete_records:
  "store_records (snd (delete_from_chroma_by_source e db p)) =
   purge (record_matches e p) (store_records db)"
proof (cases db)
  case None
  then show ?thesis by (simp add: delete_None store_records_def purge_def)
next
  case (Some rs)
  show ?thesis
  proof (cases "filter (record_matches e p) rs = []")
    case True
    then show ?thesis using Some by (simp add: delete_Some store_records_def purge_def)
  next
    case False
    then show ?thesis using Some by (simp add: delete_Some store_records_def purge_def)
  qed
qed

lemma add_to_chroma_records:
  assumes "0 < batch_size"
  shows "\<exists>db'. add_to_chroma e chunks batch_size db =
            Inr (length (fresh (store_records db) (candidate_chunks e chunks)), db') \<and>
          store_records db' =
            store_records db @ map tag (fresh (store_records db) (candidate_chunks e chunks)) \<and>
          db' = (if fresh (store_records db) (candidate_chunks e chunks) = [] then db
                 else fold (\<lambda>(b, bi). db_add_documents b bi)
                        (batch_calls 0 (nat batch_size)
                           (fresh (store_records db) (candidate_chunks e chunks))
                           (map chunk_ident (fresh (store_records db) (candidate_chunks e chunks)))) db)"
proof -
  let ?new = "fresh (store_records db) (candidate_chunks e chunks)"
  let ?calls = "batch_calls 0 (nat batch_size) ?new (map chunk_ident ?new)"
  let ?db' = "if ?new = [] then db else fold (\<lambda>(b, bi). db_add_documents b bi) ?calls db"
  have n: "filter (\<lambda>c. chunk_ident c \<notin> set (store_ids db)) (candidate_chunks e chunks) = ?new"
    by (simp add: fresh_def store_ids_def)
  from assms have bs: "0 < nat batch_size" by simp
  from assms have "add_to_chroma e chunks batch_size db = Inr (length ?new, ?db')"
    unfolding add_to_chroma_unfold n Let_def by simp
  moreover have "store_records ?db' = store_records db @ map tag ?new"
    using batch_calls_zip [OF bs, of 0 ?new "map chunk_ident ?new"]
    by (simp add: fold_add_records zip_ident tag_def)
  ultimately show ?thesis by blast
qed

lemma page_id_set_id [simp]: "page_id (set_id c s) = page_id c"
  by (simp add: page_id_def set_id_def source_or_empty_def page_or_zero_def)

lemma assign_ids_own_page_id:
  "d \<in> set (assign_ids lp idx cs) \<Longrightarrow> \<exists>n. chunk_id_of d = Some (page_id d @ '':'' @ str_nat n)"
proof (induction cs arbitrary: lp idx)
  case Nil
  then show ?case by simp
next
  case (Cons c cs)
  then show ?case by (fastforce simp: Let_def)
qed

lemma candidate_ident_source:
  assumes "c \<in> set (candidate_chunks e chunks)" "c' \<in> set (candidate_chunks e chunks)"
    and "chunk_ident c = chunk_ident c'"
  shows "source_or_empty (doc_meta c) = source_or_empty (doc_meta c')"
proof -
  from assms(1) obtain n where n: "chunk_id_of c = Some (page_id c @ '':'' @ str_nat n)"
    unfolding candidate_chunks_def calculate_chunk_ids_def by (blast dest: assign_ids_own_page_id)
  from assms(2) obtain m where m: "chunk_id_of c' = Some (page_id c' @ '':'' @ str_nat m)"
    unfolding candidate_chunks_def calculate_chunk_ids_def by (blast dest: assign_ids_own_page_id)
  from n m assms(3) have "page_id c @ '':'' @ str_nat n = page_id c' @ '':'' @ str_nat m"
    by (simp add: chunk_ident_def)
  then have "page_id c = page_id c'" using chunk_id_eq by blast
  then show ?thesis by (simp add: page_id_eq_iff chunk_key_def)
qed

lemma record_matches_tag:
  "source_or_empty (doc_meta c) = source_or_empty (doc_meta c') \<Longrightarrow>
   record_matches e p (tag c) = record_matches e p (tag c')"
  by (simp add: record_matches_def source_matches_def tag_def)

lemma eff_chunks_det:
  assumes "c \<in> set (eff_chunks e P)" "c' \<in> set (eff_chunks e P)" "chunk_ident c = chunk_ident c'"
  shows "record_matches e p (tag c) = record_matches e p (tag c')"
proof (cases "load_docs_for_path e P = []")
  case True
  with assms show ?thesis by (simp add: eff_chunks_def)
next
  case False
  with assms show ?thesis
    by (auto simp: eff_chunks_def Let_def intro!: record_matches_tag candidate_ident_source)
qed

lemma index_path_resolve_raises:
  "resolve_error e p = Some err \<Longrightarrow> index_path e p st = Inl err"
  by (simp add: index_path_def)

lemma index_path_exists_raises:
  "resolve_error e p = None \<Longrightarrow> exists_error e (resolve e p) = Some err \<Longrightarrow>
   index_path e p st = Inl err"
  by (simp add: index_path_def)

lemma index_path_missing:
  "resolve_error e p = None \<Longrightarrow> exists_error e (resolve e p) = None \<Longrightarrow>
   \<not> path_exists e (resolve e p) \<Longrightarrow> index_path e p st = Inr ((0, 0), st)"
  by (simp add: index_path_def)

lemma index_path_exists:
  assumes ok: "resolve_error e p = None" "exists_error e (resolve e p) = None"
    and "path_exists e (resolve e p)"
  shows "\<exists>db2. index_path e p st =
            Inr ((length (load_docs_for_path e (resolve e p)),
                  length (fresh (purge (record_matches e (resolve e p)) (store_records (st_db st)))
                            (eff_chunks e (resolve e p)))),
                 (mkdir_chroma st)\<lparr>st_db := db2\<rparr>) \<and>
          store_records db2 =
            purge (record_matches e (resolve e p)) (store_records (st_db st)) @
            map tag (fresh (purge (record_matches e (resolve e p)) (store_records (st_db st)))
                       (eff_chunks e (resolve e p)))"
proof -
  let ?P = "resolve e p"
  let ?db1 = "snd (delete_from_chroma_by_source e (st_db st) ?P)"
  have db1: "store_records ?db1 = purge (record_matches e ?P) (store_records (st_db st))"
    by (rule delete_records)
  have mk: "st_db (mkdir_chroma st) = st_db st" by (simp add: mkdir_chroma_def)
  show ?thesis
  proof (cases "load_docs_for_path e ?P = []")
    case True
    with assms have "index_path e p st = Inr ((0, 0), (mkdir_chroma st)\<lparr>st_db := ?db1\<rparr>)"
      by (simp add: index_path_def Let_def mk case_prod_beta)
    moreover from True have "fresh (purge (record_matches e ?P) (store_records (st_db st)))
        (eff_chunks e ?P) = []" by (simp add: eff_chunks_def fresh_def)
    ultimately show ?thesis using True db1 by (intro exI [of _ ?db1]) simp
  next
    case False
    let ?chunks = "split_documents e (load_docs_for_path e ?P)"
    from add_to_chroma_records [of 2000 e ?chunks ?db1]
    obtain db2 where a: "add_to_chroma e ?chunks 2000 ?db1 =
        Inr (length (fresh (store_records ?db1) (candidate_chunks e ?chunks)), db2)"
      and r: "store_records db2 = store_records ?db1 @
          map tag (fresh (store_records ?db1) (candidate_chunks e ?chunks))"
      by auto
    from False have ec: "eff_chunks e ?P = candidate_chunks e ?chunks"
      by (simp add: eff_chunks_def)
    from assms False a have "index_path e p st =
        Inr ((length (load_docs_for_path e ?P),
              length (fresh (store_records ?db1) (candidate_chunks e ?chunks))),
             (mkdir_chroma st)\<lparr>st_db := db2\<rparr>)"
      by (simp add: index_path_def Let_def mk case_prod_beta)
    with r show ?thesis unfolding db1 ec by blast
  qed
qed

lemma long_name_length: "length long_name = 306"
  by (simp add: long_name_def)

lemma not_long_name: "length p \<noteq> 306 \<Longrightarrow> p \<noteq> long_name"
  using long_name_length by auto

lemma example_paths_ok:
  "resolve_error example_env ''/data/report2.txt'' = None"
  "exists_error example_env ''/data/report2.txt'' = None"
  "resolve_error example_env ''/nowhere'' = None"
  "exists_error example_env ''/nowhere'' = None"
  by (simp_all add: example_env_def not_long_name)

lemma example_load: "load_docs_for_path example_env ''/data/report2.txt'' =
   [\<lparr>page_content = ''hello'',
       doc_meta = \<lparr>md_source = Some ''/data/report2.txt'', md_page = Some 0, md_id = None,
                   md_file_name = Some ''/data/report2.txt'', md_file_type = Some ''.txt''\<rparr>\<rparr>]"
  by (simp add: load_docs_for_path_def load_file_def example_env_def supported_suffixes_def
      normalize_source_path_def page_or_zero_def Let_def)

lemma example_candidates:
  "candidate_chunks example_env (split_documents example_env (load_docs_for_path example_env ''/data/report2.txt'')) =
   [snd (example_record ''/data/report2.txt'')]"
  unfolding example_load
  by (simp add: candidate_chunks_def split_documents_def calculate_chunk_ids_def normalize_chunk_source_def
      example_env_def normalize_source_path_def Let_def page_id_def source_or_empty_def page_or_zero_def
      set_id_def example_record_def str_small)

lemma example_index_first:
  "index_path example_env ''/data/report2.txt'' (example_state None) =
     Inr ((1, 1), example_state (Some [example_record ''/data/report2.txt'']))"
proof -
  have d: "delete_from_chroma_by_source example_env None ''/data/report2.txt'' = (0, None)"
    by (rule delete_None)
  have a: "add_to_chroma example_env
      (split_documents example_env (load_docs_for_path example_env ''/data/report2.txt'')) 2000 None =
      Inr (1, Some [example_record ''/data/report2.txt''])"
    unfolding add_to_chroma_unfold example_candidates
    by (simp add: store_ids_def store_records_def chunk_ident_def chunk_id_of_def example_record_def
        batch_calls.simps db_add_documents_def)
  have r: "resolve example_env ''/data/report2.txt'' = ''/data/report2.txt''"
    "path_exists example_env ''/data/report2.txt''"
    by (simp_all add: example_env_def)
  show ?thesis
    by (simp add: index_path_def Let_def r example_paths_ok mkdir_chroma_def example_state_def d
        a [unfolded example_load] example_load)
qed

lemma example_delete_file:
  "delete_from_chroma_by_source example_env (Some [example_record ''/data/report2.txt'']) ''/data/report2.txt'' =
     (1, Some [])"
  by (simp add: delete_Some record_matches_def source_matches_def example_record_def example_env_def
      normalize_source_path_def source_or_empty_def startswith_def)

lemma example_add_again:
  "add_to_chroma example_env
      (split_documents example_env (load_docs_for_path example_env ''/data/report2.txt'')) 2000 (Some []) =
      Inr (1, Some [example_record ''/data/report2.txt''])"
  unfolding add_to_chroma_unfold example_candidates
  by (simp add: store_ids_def store_records_def chunk_ident_def chunk_id_of_def example_record_def
      batch_calls.simps db_add_documents_def)

lemma example_index_second:
  "index_path example_env ''/data/report2.txt'' (example_state (Some [example_record ''/data/report2.txt''])) =
     Inr ((1, 1), example_state (Some [example_record ''/data/report2.txt'']))"
proof -
  have r: "resolve example_env ''/data/report2.txt'' = ''/data/report2.txt''"
    "path_exists example_env ''/data/report2.txt''"
    by (simp_all add: example_env_def)
  show ?thesis
    by (simp add: index_path_def Let_def r example_paths_ok mkdir_chroma_def example_state_def
        example_delete_file example_add_again [unfolded example_load] example_load)
qed

text \<open>
  Claim C1, as the code has it. When the path library raises nothing on the path,
  indexing it twice in succession on an unchanged disk returns both times, reports the same
  number of documents both times (the number loaded, for a path that exists), and leaves
  as many records in the store after the second call as after the first. The number of
  added chunks the second call reports is left open: it need not be 0.
\<close>

theorem reindex_twice_count_stable:
  assumes "resolve_error e p = None" and "exists_error e (resolve e p) = None"
  shows "\<exists>d a1 a2 st1 st2.
     index_path e p st = Inr ((d, a1), st1) \<and>
     index_path e p st1 = Inr ((d, a2), st2) \<and>
     record_count st2 = record_count st1 \<and>
     (path_exists e (resolve e p) \<longrightarrow> d = length (load_docs_for_path e (resolve e p)))"
proof (cases "path_exists e (resolve e p)")
  case False
  with assms show ?thesis by (simp add: index_path_missing)
next
  case True
  let ?P = "resolve e p"
  let ?M = "record_matches e ?P"
  let ?C = "eff_chunks e ?P"
  let ?A = "purge ?M (store_records (st_db st))"
  from index_path_exists [OF assms True, of st] obtain db2 where
    i1: "index_path e p st = Inr ((length (load_docs_for_path e ?P), length (fresh ?A ?C)),
           (mkdir_chroma st)\<lparr>st_db := db2\<rparr>)"
    and r1: "store_records db2 = ?A @ map tag (fresh ?A ?C)" by blast
  let ?st1 = "(mkdir_chroma st)\<lparr>st_db := db2\<rparr>"
  from index_path_exists [OF assms True, of ?st1] obtain db3 where
    i2: "index_path e p ?st1 =
           Inr ((length (load_docs_for_path e ?P),
                 length (fresh (purge ?M (store_records (st_db ?st1))) ?C)),
           (mkdir_chroma ?st1)\<lparr>st_db := db3\<rparr>)"
    and r2: "store_records db3 = purge ?M (store_records (st_db ?st1)) @
               map tag (fresh (purge ?M (store_records (st_db ?st1))) ?C)" by blast
  have s1: "store_records (st_db ?st1) = ?A @ map tag (fresh ?A ?C)" using r1 by simp
  have det: "\<And>c c'. c \<in> set ?C \<Longrightarrow> c' \<in> set ?C \<Longrightarrow> chunk_ident c = chunk_ident c' \<Longrightarrow>
      ?M (tag c) = ?M (tag c')" by (rule eff_chunks_det)
  have noA: "\<And>r. r \<in> set ?A \<Longrightarrow> \<not> ?M r" by (rule purge_no_match)
  note tw = reindex_twice [of ?C ?M ?A, OF det noA]
  have p2: "purge ?M (store_records (st_db ?st1)) =
            ?A @ map tag (filter (\<lambda>c. \<not> ?M (tag c)) (fresh ?A ?C))"
    unfolding s1 by (rule tw(1))
  have f2: "fresh (purge ?M (store_records (st_db ?st1))) ?C =
            filter (\<lambda>c. ?M (tag c)) (fresh ?A ?C)"
    unfolding s1 by (rule tw(2))
  note r2' = r2 [unfolded f2]
  have "length (store_records db3) = length (store_records db2)"
    unfolding r2' [unfolded p2] r1
    using sum_length_filter_compl [of "\<lambda>c. ?M (tag c)" "fresh ?A ?C"] by simp
  then have cnt: "record_count ((mkdir_chroma ?st1)\<lparr>st_db := db3\<rparr>) = record_count ?st1"
    by (simp add: record_count_def)
  from i1 i2 cnt show ?thesis by blast
qed

theorem reindex_twice_count_stable_witness:
  "resolve_error example_env ''/data/report2.txt'' = None \<and>
   exists_error example_env (resolve example_env ''/data/report2.txt'') = None \<and>
   path_exists example_env (resolve example_env ''/data/report2.txt'') \<and>
   index_path example_env ''/data/report2.txt'' (example_state None) =
     Inr ((1, 1), example_state (Some [example_record ''/data/report2.txt''])) \<and>
   (\<exists>a2 st2. index_path example_env ''/data/report2.txt''
            (example_state (Some [example_record ''/data/report2.txt''])) = Inr ((1, a2), st2) \<and>
          record_count st2 = 1)"
proof -
  let ?P = "''/data/report2.txt''"
  let ?s1 = "example_state (Some [example_record ?P])"
  have rs: "resolve example_env ?P = ?P" by (simp add: example_env_def)
  have h1: "resolve_error example_env ?P = None" by (rule example_paths_ok)
  have h2: "exists_error example_env (resolve example_env ?P) = None"
    unfolding rs by (rule example_paths_ok)
  have ex: "path_exists example_env (resolve example_env ?P)" by (simp add: example_env_def)
  from reindex_twice_count_stable [OF h1 h2, of "example_state None"]
  obtain d a1 a2 st1 st2 where
    i1: "index_path example_env ?P (example_state None) = Inr ((d, a1), st1)"
    and i2: "index_path example_env ?P st1 = Inr ((d, a2), st2)"
    and cnt: "record_count st2 = record_count st1"
    by blast
  from i1 have st1: "st1 = ?s1" and d: "d = 1" by (simp_all add: example_index_first)
  from cnt have "record_count st2 = 1"
    by (simp add: st1 record_count_def example_state_def store_records_def)
  with i2 st1 d have "\<exists>a2 st2. index_path example_env ?P ?s1 = Inr ((1, a2), st2) \<and> record_count st2 = 1"
    by auto
  with h1 h2 ex example_index_first show ?thesis by blast
qed

text \<open>
  The claim as it is written fails: the file \<^verbatim>\<open>/data/report2.txt\<close> holds one document
  that makes one chunk, and the second call returns (1, 1), not (1, 0).
\<close>

theorem second_index_call_readds:
  "index_path example_env ''/data/report2.txt'' (example_state None) =
     Inr ((1, 1), example_state (Some [example_record ''/data/report2.txt''])) \<and>
   index_path example_env ''/data/report2.txt'' (example_state (Some [example_record ''/data/report2.txt''])) =
     Inr ((1, 1), example_state (Some [example_record ''/data/report2.txt''])) \<and>
   index_path example_env ''/data/report2.txt'' (example_state (Some [example_record ''/data/report2.txt''])) \<noteq>
     Inr ((1, 0), example_state (Some [example_record ''/data/report2.txt'']))"
  by (simp add: example_index_first example_index_second)

text \<open>
  Claim C8, as the code has it. When resolving the path and testing its existence raise
  nothing and the path does not exist, \<^verbatim>\<open>index_path\<close> returns the pair (0, 0) and
  leaves the state as it is. An exception that the path library raises while the path is
  resolved or tested leaves \<^verbatim>\<open>index_path\<close> as it is: then no pair is returned.
\<close>

theorem index_missing_path:
  "(resolve_error e p = None \<longrightarrow> exists_error e (resolve e p) = None \<longrightarrow>
      \<not> path_exists e (resolve e p) \<longrightarrow> index_path e p st = Inr ((0, 0), st)) \<and>
   (resolve_error e p = Some err \<longrightarrow> index_path e p st = Inl err) \<and>
   (resolve_error e p = None \<longrightarrow> exists_error e (resolve e p) = Some err \<longrightarrow>
      index_path e p st = Inl err)"
  by (simp add: index_path_def)

theorem index_missing_path_witness:
  "resolve_error example_env ''/nowhere'' = None \<and>
   exists_error example_env (resolve example_env ''/nowhere'') = None \<and>
   \<not> path_exists example_env (resolve example_env ''/nowhere'') \<and>
   index_path example_env ''/nowhere'' (example_state (Some [example_record ''/data/report2.txt''])) =
     Inr ((0, 0), example_state (Some [example_record ''/data/report2.txt''])) \<and>
   resolve_error example_env ''~nosuchuser/x'' = Some RuntimeError \<and>
   index_path example_env ''~nosuchuser/x'' (example_state None) = Inl RuntimeError \<and>
   resolve_error example_env long_name = None \<and>
   exists_error example_env (resolve example_env long_name) = Some OSError \<and>
   index_path example_env long_name (example_state None) = Inl OSError"
proof -
  let ?s = "example_state (Some [example_record ''/data/report2.txt''])"
  have rs: "resolve example_env ''/nowhere'' = ''/nowhere''" "resolve example_env long_name = long_name"
    by (simp_all add: example_env_def)
  have a1: "resolve_error example_env ''/nowhere'' = None" by (rule example_paths_ok)
  have a2: "exists_error example_env (resolve example_env ''/nowhere'') = None"
    unfolding rs by (rule example_paths_ok)
  have a3: "\<not> path_exists example_env (resolve example_env ''/nowhere'')"
    by (simp add: example_env_def)
  have b1: "resolve_error example_env ''~nosuchuser/x'' = Some RuntimeError"
    by (simp add: example_env_def)
  have "long_name \<noteq> ''~nosuchuser/x''"
  proof
    assume "long_name = ''~nosuchuser/x''"
    then have "length long_name = length ''~nosuchuser/x''" by (rule arg_cong)
    then show False by (simp add: long_name_length)
  qed
  then have c1: "resolve_error example_env long_name = None"
    by (simp add: example_env_def)
  have c2: "exists_error example_env (resolve example_env long_name) = Some OSError"
    by (simp add: example_env_def)
  from index_missing_path [of example_env "''/nowhere''" ?s RuntimeError] a1 a2 a3
  have r1: "index_path example_env ''/nowhere'' ?s = Inr ((0, 0), ?s)" by blast
  from index_missing_path [of example_env "''~nosuchuser/x''" "example_state None" RuntimeError] b1
  have r2: "index_path example_env ''~nosuchuser/x'' (example_state None) = Inl RuntimeError" by blast
  from index_missing_path [of example_env long_name "example_state None" OSError] c1 c2
  have r3: "index_path example_env long_name (example_state None) = Inl OSError" by blast
  from a1 a2 a3 r1 b1 r2 c1 c2 r3 show ?thesis by blast
qed

text \<open>
  The claim as it is written fails: nothing exists at \<^verbatim>\<open>~nosuchuser/x\<close>, and
  \<^verbatim>\<open>index_path\<close> raises \<^verbatim>\<open>RuntimeError\<close> there instead of returning (0, 0).
\<close>

theorem index_unknown_user_raises:
  "\<not> path_exists example_env ''~nosuchuser/x'' \<and>
   index_path example_env ''~nosuchuser/x'' (example_state None) = Inl RuntimeError \<and>
   index_path example_env ''~nosuchuser/x'' (example_state None) \<noteq> Inr ((0, 0), example_state None)"
proof -
  have "resolve_error example_env ''~nosuchuser/x'' = Some RuntimeError"
    by (simp add: example_env_def)
  then have "index_path example_env ''~nosuchuser/x'' (example_state None) = Inl RuntimeError"
    by (rule index_path_resolve_raises)
  moreover have "\<not> path_exists example_env ''~nosuchuser/x''" by (simp add: example_env_def)
  ultimately show ?thesis by simp
qed

subsection \<open>Clearing the store and the deferred reset\<close>

lemma clear_api_records:
  "store_records (case db_get d of Inl err \<Rightarrow> d
     | Inr got \<Rightarrow> (case gr_ids got of None \<Rightarrow> d
         | Some ids \<Rightarrow> if ids \<noteq> [] then db_delete ids d else d)) = []"
proof (cases d)
  case None
  then show ?thesis by (simp add: db_get_def store_records_def)
next
  case (Some rs)
  have "filter (\<lambda>r. fst r \<notin> fst ` set rs) rs = []" by (simp add: filter_empty_conv)
  with Some show ?thesis by (cases rs) (simp_all add: db_get_def store_records_def db_delete_def)
qed

text \<open>
  Claim C9. When the removal of the store directory fails with \<^verbatim>\<open>PermissionError\<close>,
  \<^verbatim>\<open>clear_chroma\<close> raises nothing: it has emptied the index, leaves the directory in
  place and writes the reset marker. At the start of the next run \<^verbatim>\<open>auto_reset_chroma\<close>
  comes before every other operation; with the marker present and the directory now
  removable it leaves a fresh, empty store directory without marker, on which the
  operations of the run then work. Whatever the removal does, the marker is cleared and
  the directory exists afterwards; without marker nothing is touched.
\<close>

theorem deferred_reset:
  "(dir_exists st \<longrightarrow>
      (\<exists>st'. clear_chroma PermissionDenied st = Inr st' \<and> reset_marker st' \<and> dir_exists st' \<and>
             store_records (st_db st') = [])) \<and>
   (reset_marker st \<longrightarrow> auto_reset_chroma Removed st = fresh_state) \<and>
   (reset_marker st \<longrightarrow> app_run e Removed ops st = run_operations e ops fresh_state) \<and>
   (reset_marker st \<longrightarrow>
      \<not> reset_marker (auto_reset_chroma rm st) \<and> dir_exists (auto_reset_chroma rm st)) \<and>
   (\<not> reset_marker st \<longrightarrow> auto_reset_chroma rm st = st)"
proof (intro conjI impI)
  assume "dir_exists st"
  then show "\<exists>st'. clear_chroma PermissionDenied st = Inr st' \<and> reset_marker st' \<and> dir_exists st' \<and>
             store_records (st_db st') = []"
    by (simp add: clear_chroma_def Let_def mkdir_chroma_def clear_api_records)
next
  assume m: "reset_marker st"
  then show r: "auto_reset_chroma Removed st = fresh_state"
    by (simp add: auto_reset_chroma_def removed_state_def mkdir_chroma_def fresh_state_def)
  then show "app_run e Removed ops st = run_operations e ops fresh_state"
    by (simp add: app_run_def)
  from m show "\<not> reset_marker (auto_reset_chroma rm st)"
    by (cases rm) (simp_all add: auto_reset_chroma_def removed_state_def mkdir_chroma_def)
  from m show "dir_exists (auto_reset_chroma rm st)"
    by (cases rm) (simp_all add: auto_reset_chroma_def removed_state_def mkdir_chroma_def)
next
  assume "\<not> reset_marker st"
  then show "auto_reset_chroma rm st = st" by (simp add: auto_reset_chroma_def)
qed

theorem deferred_reset_witness:
  "dir_exists (example_state (Some [example_record ''/data/report2.txt''])) \<and>
   clear_chroma PermissionDenied (example_state (Some [example_record ''/data/report2.txt''])) =
     Inr \<lparr>st_db = Some [], dir_exists = True, reset_marker = True\<rparr> \<and>
   reset_marker \<lparr>st_db = Some [], dir_exists = True, reset_marker = True\<rparr> \<and>
   auto_reset_chroma Removed \<lparr>st_db = Some [], dir_exists = True, reset_marker = True\<rparr> = fresh_state \<and>
   app_run example_env Removed [IndexPath ''/data/report2.txt'']
       \<lparr>st_db = Some [], dir_exists = True, reset_marker = True\<rparr> =
     Inr (example_state (Some [example_record ''/data/report2.txt''])) \<and>
   \<not> reset_marker (example_state None) \<and>
   auto_reset_chroma PermissionDenied (example_state None) = example_state None"
proof -
  let ?s0 = "example_state (Some [example_record ''/data/report2.txt''])"
  let ?sm = "\<lparr>st_db = Some [], dir_exists = True, reset_marker = True\<rparr>"
  have c: "clear_chroma PermissionDenied ?s0 = Inr ?sm"
    by (simp add: clear_chroma_def example_state_def db_get_def db_delete_def mkdir_chroma_def Let_def)
  have m: "reset_marker ?sm" by simp
  have n: "\<not> reset_marker (example_state None)" by (simp add: example_state_def)
  have f: "fresh_state = example_state None" by (simp add: fresh_state_def example_state_def)
  note t = deferred_reset [of ?sm example_env "[IndexPath ''/data/report2.txt'']" Removed]
  from t m have a: "auto_reset_chroma Removed ?sm = fresh_state" by blast
  from t m have "app_run example_env Removed [IndexPath ''/data/report2.txt''] ?sm =
      run_operations example_env [IndexPath ''/data/report2.txt''] fresh_state" by blast
  then have r: "app_run example_env Removed [IndexPath ''/data/report2.txt''] ?sm = Inr ?s0"
    by (simp add: f example_index_first)
  from deferred_reset [of "example_state None" example_env "[]" PermissionDenied] n
  have k: "auto_reset_chroma PermissionDenied (example_state None) = example_state None" by blast
  have "dir_exists ?s0" by (simp add: example_state_def)
  with c m a r n k show ?thesis by blast
qed

subsection \<open>Records without a source\<close>

text \<open>
  Claim C10. A record whose source is absent or empty is never deleted by
  \<^verbatim>\<open>delete_from_chroma_by_source\<close>, whatever the path (the identifiers of the store
  being pairwise distinct), and is never counted by \<^verbatim>\<open>list_sources_in_chroma\<close>: the
  listing is the same as on the store without such records.
\<close>

theorem sourceless_records_invisible:
  "(distinct (map fst (store_records d)) \<longrightarrow> r \<in> set (store_records d) \<longrightarrow>
      source_or_empty (doc_meta (snd r)) = [] \<longrightarrow>
      r \<in> set (store_records (snd (delete_from_chroma_by_source e d p)))) \<and>
   list_sources_in_chroma e d =
     list_sources_in_chroma e (map_option (filter (\<lambda>r. source_or_empty (doc_meta (snd r)) \<noteq> [])) d)"
proof (intro conjI impI)
  assume dist: "distinct (map fst (store_records d))" and r: "r \<in> set (store_records d)"
    and s: "source_or_empty (doc_meta (snd r)) = []"
  from s have nm: "\<not> record_matches e p r" by (simp add: record_matches_def source_matches_def)
  show "r \<in> set (store_records (snd (delete_from_chroma_by_source e d p)))"
  proof (cases d)
    case None
    with r show ?thesis by (simp add: store_records_def)
  next
    case (Some rs)
    with dist have "distinct (map fst rs)" by (simp add: store_records_def)
    from delete_Some_distinct [OF this, of e p] Some r nm show ?thesis
      by (simp add: store_records_def)
  qed
next
  show "list_sources_in_chroma e d =
     list_sources_in_chroma e (map_option (filter (\<lambda>r. source_or_empty (doc_meta (snd r)) \<noteq> [])) d)"
  proof (cases d)
    case None
    then show ?thesis by simp
  next
    case (Some rs)
    have "filter (\<lambda>r. carries_source e k (doc_meta (snd r)))
            (filter (\<lambda>r. source_or_empty (doc_meta (snd r)) \<noteq> []) rs) =
          filter (\<lambda>r. carries_source e k (doc_meta (snd r))) rs" for k
      by (induction rs) (auto simp: carries_source_def)
    then have "list_sources_in_chroma e (Some rs) k =
        list_sources_in_chroma e (Some (filter (\<lambda>r. source_or_empty (doc_meta (snd r)) \<noteq> []) rs)) k" for k
      by (simp add: list_sources_at)
    with Some show ?thesis by auto
  qed
qed

theorem sourceless_records_invisible_witness:
  "distinct (map fst (store_records (Some [sourceless_record, example_record ''/data/report2.txt'']))) \<and>
   sourceless_record \<in> set (store_records (Some [sourceless_record, example_record ''/data/report2.txt''])) \<and>
   source_or_empty (doc_meta (snd sourceless_record)) = [] \<and>
   delete_from_chroma_by_source example_env
      (Some [sourceless_record, example_record ''/data/report2.txt'']) ''/data/report2.txt'' =
     (1, Some [sourceless_record]) \<and>
   sourceless_record \<in> set (store_records (snd (delete_from_chroma_by_source example_env
      (Some [sourceless_record, example_record ''/data/report2.txt'']) ''/data/report2.txt''))) \<and>
   list_sources_in_chroma example_env (Some [sourceless_record, example_record ''/data/report2.txt'']) =
     list_sources_in_chroma example_env (Some [example_record ''/data/report2.txt''])"
proof -
  let ?d = "Some [sourceless_record, example_record ''/data/report2.txt'']"
  have h1: "distinct (map fst (store_records ?d))"
    by (simp add: store_records_def sourceless_record_def example_record_def)
  have h2: "sourceless_record \<in> set (store_records ?d)" by (simp add: store_records_def)
  have h3: "source_or_empty (doc_meta (snd sourceless_record)) = []"
    by (simp add: sourceless_record_def source_or_empty_def)
  have nm: "\<not> record_matches example_env ''/data/report2.txt'' sourceless_record"
    using h3 by (simp add: record_matches_def source_matches_def)
  have pd: "path_is_dir example_env ''/data/report2.txt'' = False" by (simp add: example_env_def)
  have ne: "fst (example_record ''/data/report2.txt'') \<noteq> fst sourceless_record"
    by (simp add: sourceless_record_def example_record_def)
  have del: "delete_from_chroma_by_source example_env ?d ''/data/report2.txt'' = (1, Some [sourceless_record])"
    using ne by (simp add: delete_Some nm example_record_matches pd)
  note t = sourceless_records_invisible [of ?d sourceless_record example_env "''/data/report2.txt''"]
  from t h1 h2 h3 have keep: "sourceless_record \<in> set (store_records
      (snd (delete_from_chroma_by_source example_env ?d ''/data/report2.txt'')))" by blast
  from t have "list_sources_in_chroma example_env ?d =
      list_sources_in_chroma example_env
        (map_option (filter (\<lambda>r. source_or_empty (doc_meta (snd r)) \<noteq> [])) ?d)" by blast
  then have ls: "list_sources_in_chroma example_env ?d =
      list_sources_in_chroma example_env (Some [example_record ''/data/report2.txt''])"
    by (simp add: h3) (simp add: example_record_def source_or_empty_def)
  from h1 h2 h3 del keep ls show ?thesis by blast
qed

end
